theory Spec2Isabelle
  imports Main
begin

section \<open>JavaScript values\<close>

text \<open>
  The values that flow through the engine and the compiler: the shared context, the
  results of the stages, transition labels and the graph description are all plain
  JavaScript data. Numbers are restricted to integers (no floating point, no NaN).
  An object is a plain object (its prototype is \<open>Object.prototype\<close>), given by the
  list of its own enumerable properties; values are trees, so an object reachable
  along two paths is two copies. \<open>Fn\<close> is a function value carrying its source text;
  calling it is outside the model.
\<close>

datatype jsval =
    Undefined
  | Null
  | Bool bool
  | Num int
  | Str string
  | Arr "jsval list"
  | Obj "(string \<times> jsval) list"
  | Fn string

text \<open>
  JavaScript errors as values: every \<open>throw\<close> of the source is an \<open>Inl\<close>.
  \<open>OutsideModel\<close> is not a JavaScript error: it marks the places where the source
  goes on with something this model cannot represent (a call of a function value, a
  member of a built-in prototype used as a value, a changed prototype, a number
  printed in exponent notation). A result \<open>Inl (OutsideModel _)\<close> says nothing about
  what the program does there.
\<close>

datatype error =
    Error string
  | TypeError string
  | SyntaxError string
  | Thrown jsval
  | OutsideModel string

text \<open>ToBoolean: the test behind \<open>!x\<close>, \<open>x || y\<close>, \<open>if (x)\<close>.\<close>

fun truthy :: "jsval \<Rightarrow> bool" where
  "truthy Undefined = False"
| "truthy Null = False"
| "truthy (Bool b) = b"
| "truthy (Num n) = (n \<noteq> 0)"
| "truthy (Str s) = (s \<noteq> [])"
| "truthy (Arr xs) = True"
| "truthy (Obj kvs) = True"
| "truthy (Fn src) = True"

text \<open>\<open>a || b\<close> on values.\<close>

definition js_or :: "jsval \<Rightarrow> jsval \<Rightarrow> jsval" where
  "js_or a b = (if truthy a then a else b)"

text \<open>Decimal digits of a natural number, most significant first.\<close>

fun digit_char :: "nat \<Rightarrow> char" where
  "digit_char n = char_of (48 + n)"

lemma char_of_digit [simp]:
  "char_of (48::nat) = CHR ''0''" "char_of (49::nat) = CHR ''1''" "char_of (50::nat) = CHR ''2''"
  "char_of (51::nat) = CHR ''3''" "char_of (52::nat) = CHR ''4''" "char_of (53::nat) = CHR ''5''"
  "char_of (54::nat) = CHR ''6''" "char_of (55::nat) = CHR ''7''" "char_of (56::nat) = CHR ''8''"
  "char_of (57::nat) = CHR ''9''"
  by (simp_all add: char_of_def bit_simps)

function string_of_nat :: "nat \<Rightarrow> string" where
  "string_of_nat n =
     (if n < 10 then [digit_char n] else string_of_nat (n div 10) @ [digit_char (n mod 10)])"
  by pat_completeness auto
termination
  by (relation "measure (\<lambda>n. n)") auto

declare string_of_nat.simps [simp del]

definition string_of_int :: "int \<Rightarrow> string" where
  "string_of_int i = (if i < 0 then CHR ''-'' # string_of_nat (nat (- i)) else string_of_nat (nat i))"

text \<open>
  The members every plain object inherits from \<open>Object.prototype\<close>: eleven functions
  and the accessor \<open>__proto__\<close>. A read \<open>o[k]\<close> of a key that is not an own property
  of \<open>o\<close> finds them, and \<open>k in o\<close> is true of them.
\<close>

definition object_prototype_keys :: "string list" where
  "object_prototype_keys =
     [''constructor'', ''__defineGetter__'', ''__defineSetter__'', ''hasOwnProperty'',
      ''__lookupGetter__'', ''__lookupSetter__'', ''isPrototypeOf'', ''propertyIsEnumerable'',
      ''toString'', ''valueOf'', ''__proto__'', ''toLocaleString'']"

definition inherited :: "string \<Rightarrow> bool" where
  "inherited k \<longleftrightarrow> k \<in> set object_prototype_keys"

text \<open>
  ToString, as used by template literals, by property keys and by the result of a
  \<open>String.prototype.replace\<close> callback. An integer prints in decimal below
  \<open>10\<^sup>2\<^sup>1\<close> (from there on JavaScript uses exponent notation, on the digits of the
  floating-point value). An array joins its elements with commas, \<open>undefined\<close> and
  \<open>null\<close> giving the empty string. An object is converted by its \<open>toString\<close> method,
  then by its \<open>valueOf\<close> method: the inherited \<open>toString\<close> gives \<open>[object Object]\<close>,
  an own property of that name which is not a function is skipped, the inherited
  \<open>valueOf\<close> returns the object itself, and without a primitive the conversion throws.
  \<open>joined sep xs\<close> is \<open>xs.join(sep)\<close>.
\<close>

fun toString :: "jsval \<Rightarrow> error + string"
  and joined :: "string \<Rightarrow> jsval list \<Rightarrow> error + string" where
  "toString Undefined = Inr ''undefined''"
| "toString Null = Inr ''null''"
| "toString (Bool b) = Inr (if b then ''true'' else ''false'')"
| "toString (Num n) =
     (if - 1000000000000000000000 < n \<and> n < 1000000000000000000000 then Inr (string_of_int n)
      else Inl (OutsideModel ''a number printed in exponent notation''))"
| "toString (Str s) = Inr s"
| "toString (Arr xs) = joined '','' xs"
| "toString (Obj kvs) =
     (case map_of kvs ''toString'' of
        None \<Rightarrow> Inr ''[object Object]''
      | Some (Fn src) \<Rightarrow> Inl (OutsideModel ''a call of a toString method'')
      | Some v \<Rightarrow>
          (case map_of kvs ''valueOf'' of
             Some (Fn src) \<Rightarrow> Inl (OutsideModel ''a call of a valueOf method'')
           | _ \<Rightarrow> Inl (TypeError ''Cannot convert object to primitive value'')))"
| "toString (Fn src) = Inr src"
| "joined sep [] = Inr []"
| "joined sep (x # xs) =
     (case (if x = Undefined \<or> x = Null then Inr [] else toString x) of
        Inl e \<Rightarrow> Inl e
      | Inr s \<Rightarrow>
          if xs = [] then Inr s
          else (case joined sep xs of
                  Inl e \<Rightarrow> Inl e
                | Inr r \<Rightarrow> Inr (s @ sep @ r)))"

text \<open>
  A message built by a template literal: the conversion of the value may throw, and
  then that error is what is thrown.
\<close>

definition message :: "string \<Rightarrow> jsval \<Rightarrow> string \<Rightarrow> error" where
  "message before v after =
     (case toString v of
        Inl e \<Rightarrow> e
      | Inr s \<Rightarrow> Error (before @ s @ after))"

text \<open>The own property \<open>k\<close> of a dictionary object, if there is one.\<close>

definition lookup :: "(string \<times> 'a) list \<Rightarrow> string \<Rightarrow> 'a option" where
  "lookup kvs k = map_of kvs k"

text \<open>Own-property write \<open>o[k] = v\<close>: replaces in place, or appends a new entry.\<close>

fun assign :: "(string \<times> 'a) list \<Rightarrow> string \<Rightarrow> 'a \<Rightarrow> (string \<times> 'a) list" where
  "assign [] k v = [(k, v)]"
| "assign ((k', v') # kvs) k v = (if k' = k then (k, v) # kvs else (k', v') # assign kvs k v)"


section \<open>The execution engine\<close>

subsection \<open>Node objects, the object store and the observable world\<close>

text \<open>
  Node objects reference each other (successor maps, a flow's start node) and are
  mutated in place (\<open>setParams\<close>, \<open>next\<close>, \<open>this.curRetry\<close>), so they live in a store:
  an address is an index into \<open>heap\<close>, and allocation appends. The classes are those
  the compiler can instantiate. The stage closures are fields, as they are own
  properties of compiled nodes; for the \<open>Async*\<close> classes the fields \<open>prep\<close>, \<open>exec\<close>,
  \<open>post\<close> hold \<open>prepAsync\<close>, \<open>execAsync\<close>, \<open>postAsync\<close>.

  The stages may depend on the outside world (an LLM or HTTP collaborator, the
  JavaScript evaluator behind a template or a condition), so they read a clock
  \<open>ticks\<close> that counts the calls made to it: what the outside answers may differ from
  one call to the next. The execute stage is one such call. The prepare and post
  stages receive the shared context itself, so they return, with their result (or the
  error they throw), the shared context as they left it and the clock after the calls
  they made. \<open>execIsAsync\<close> tells whether \<open>exec\<close> is an \<open>async\<close> function (a failure
  is then a rejected promise, not a synchronous throw).

  A successor map is a plain object used as a dictionary: \<open>successors\<close> holds its own
  entries, and reading a label from it also finds the members of \<open>Object.prototype\<close>.
\<close>

type_synonym addr = nat

datatype cls =
    NodeC | BatchNodeC | FlowC
  | AsyncNodeC | AsyncParallelBatchNodeC | AsyncFlowC | AsyncBatchFlowC

record node =
  cls :: cls
  params :: jsval
  successors :: "(string \<times> addr) list"
  maxRetries :: int
  wait :: int
  curRetry :: int
  startNode :: "addr option"
  prep :: "nat \<Rightarrow> jsval \<Rightarrow> (error + jsval) \<times> jsval \<times> nat"
  exec :: "nat \<Rightarrow> jsval \<Rightarrow> error + jsval"
  execIsAsync :: bool
  execFallback :: "jsval \<Rightarrow> error \<Rightarrow> error + jsval"
  post :: "nat \<Rightarrow> jsval \<Rightarrow> jsval \<Rightarrow> jsval \<Rightarrow> (error + jsval) \<times> jsval \<times> nat"

text \<open>
  The trace records what the claims observe: the lifecycle of the node registered at
  an address starts; the execute stage is called on an input; the inter-attempt delay
  runs; the fallback hook is called; the per-element call of a batch settles.
\<close>

datatype event =
    Lifecycle addr
  | ExecCall jsval
  | Delay int
  | FallbackCall jsval error
  | Settled nat

record world =
  heap :: "node list"
  shared :: jsval
  trace :: "event list"
  ticks :: nat

datatype 'a outcome = Return 'a | Raise error | Timeout

definition emit :: "event \<Rightarrow> world \<Rightarrow> world" where
  "emit e w = w\<lparr>trace := trace w @ [e]\<rparr>"

definition update_node :: "addr \<Rightarrow> (node \<Rightarrow> node) \<Rightarrow> world \<Rightarrow> world" where
  "update_node a f w = w\<lparr>heap := (heap w)[a := f (heap w ! a)]\<rparr>"

text \<open>The constructors: \<open>BaseNode\<close>'s fields and empty stages, \<open>Node\<close>'s retry policy.\<close>

definition new_Node :: "cls \<Rightarrow> int \<Rightarrow> int \<Rightarrow> node" where
  "new_Node c maxRetries' wait' =
     \<lparr>cls = c, params = Obj [], successors = [], maxRetries = maxRetries', wait = wait',
      curRetry = 0, startNode = None,
      prep = (\<lambda>t sh. (Inr Undefined, sh, t)),
      exec = (\<lambda>t p. Inr Undefined),
      execIsAsync = False,
      execFallback = (\<lambda>p e. Inl e),
      post = (\<lambda>t sh p r. (Inr Undefined, sh, t))\<rparr>"

text \<open>\<open>Flow\<close>: \<open>post(shared, prepRes, execRes) { return execRes; }\<close>.\<close>

definition new_Flow :: "cls \<Rightarrow> addr option \<Rightarrow> node" where
  "new_Flow c start =
     (new_Node c 1 0)\<lparr>startNode := start, post := (\<lambda>t sh p r. (Inr r, sh, t))\<rparr>"

definition alloc :: "node \<Rightarrow> world \<Rightarrow> addr \<times> world" where
  "alloc n w = (length (heap w), w\<lparr>heap := heap w @ [n]\<rparr>)"

text \<open>\<open>setParams(params) { this.params = params; }\<close>\<close>

definition setParams :: "addr \<Rightarrow> jsval \<Rightarrow> world \<Rightarrow> world" where
  "setParams this p w = update_node this (\<lambda>n. n\<lparr>params := p\<rparr>) w"

text \<open>
  \<open>next(node, action = "default")\<close>: the default applies to an absent argument only;
  the action is used as a property key, and its conversion may throw. An existing
  entry is overwritten (with a console warning, which is not modelled). Every key
  but one gives an own entry: \<open>this.successors["__proto__"] = node\<close> calls the
  inherited setter, which makes the node the prototype of the map and adds no entry;
  a successor map with another prototype is outside the model.
\<close>

definition action_key :: "jsval \<Rightarrow> error + string" where
  "action_key action = (if action = Undefined then Inr ''default'' else toString action)"

definition BaseNode_next :: "addr \<Rightarrow> addr \<Rightarrow> jsval \<Rightarrow> world \<Rightarrow> error + world" where
  "BaseNode_next this nd action w =
     (case action_key action of
        Inl e \<Rightarrow> Inl e
      | Inr k \<Rightarrow>
          if k = ''__proto__''
          then Inl (OutsideModel ''the key __proto__ replaces the prototype of the successor map'')
          else Inr (update_node this (\<lambda>n. n\<lparr>successors := assign (successors n) k nd\<rparr>) w))"

subsection \<open>Retry: \<open>Node._exec\<close>\<close>

text \<open>
  One call of the execute stage of node \<open>n\<close>, one call of its fallback hook, and the
  inter-attempt delay \<open>if (this.wait > 0) await new Promise(setTimeout ...)\<close>.
\<close>

definition call_exec :: "node \<Rightarrow> jsval \<Rightarrow> world \<Rightarrow> (error + jsval) \<times> world" where
  "call_exec n prepRes w =
     (exec n (ticks w) prepRes,
      w\<lparr>trace := trace w @ [ExecCall prepRes], ticks := Suc (ticks w)\<rparr>)"

definition call_fallback :: "node \<Rightarrow> jsval \<Rightarrow> error \<Rightarrow> world \<Rightarrow> (error + jsval) \<times> world" where
  "call_fallback n prepRes e w = (execFallback n prepRes e, emit (FallbackCall prepRes e) w)"

definition delay :: "node \<Rightarrow> world \<Rightarrow> world" where
  "delay n w = (if wait n > 0 then emit (Delay (wait n)) w else w)"

definition set_curRetry :: "addr \<Rightarrow> int \<Rightarrow> world \<Rightarrow> world" where
  "set_curRetry this i w = update_node this (\<lambda>n. n\<lparr>curRetry := i\<rparr>) w"

lemma heap_emit [simp]: "heap (emit e w) = heap w"
  by (simp add: emit_def)

lemma heap_delay [simp]: "heap (delay n w) = heap w"
  by (simp add: delay_def)

lemma heap_call_exec [simp]: "heap (snd (call_exec n p w)) = heap w"
  by (simp add: call_exec_def)

lemma heap_call_fallback [simp]: "heap (snd (call_fallback n p e w)) = heap w"
  by (simp add: call_fallback_def)

lemma set_curRetry_world [simp]:
  "ticks (set_curRetry this i w) = ticks w"
  "trace (set_curRetry this i w) = trace w"
  "shared (set_curRetry this i w) = shared w"
  "length (heap (set_curRetry this i w)) = length (heap w)"
  by (simp_all add: set_curRetry_def update_node_def)

lemma set_curRetry_node:
  "heap (set_curRetry this i w) ! this =
     (if this < length (heap w) then (heap w ! this)\<lparr>curRetry := i\<rparr> else heap w ! this)"
  by (simp add: set_curRetry_def update_node_def list_update_beyond)

lemma set_curRetry_fields [simp]:
  "exec (heap (set_curRetry this i w) ! this) = exec (heap w ! this)"
  "execFallback (heap (set_curRetry this i w) ! this) = execFallback (heap w ! this)"
  "wait (heap (set_curRetry this i w) ! this) = wait (heap w ! this)"
  "maxRetries (heap (set_curRetry this i w) ! this) = maxRetries (heap w ! this)"
  "post (heap (set_curRetry this i w) ! this) = post (heap w ! this)"
  by (simp_all add: set_curRetry_node)

text \<open>
  The loop of \<open>Node._exec\<close> for one call on its own (no other call on the same node
  object in flight, so nothing else touches \<open>this.curRetry\<close>):
  \<open>Node_exec_from this i\<close> is the loop at the point where \<open>this.curRetry\<close> receives
  \<open>i\<close>, just before the loop test. Falling out of the loop returns \<open>undefined\<close>.
\<close>

function Node_exec_from :: "addr \<Rightarrow> int \<Rightarrow> jsval \<Rightarrow> world \<Rightarrow> (error + jsval) \<times> world" where
  "Node_exec_from this i prepRes w =
     (if i < maxRetries (heap w ! this) then
        (case call_exec (heap w ! this) prepRes (set_curRetry this i w) of
           (Inr v, w1) \<Rightarrow> (Inr v, w1)
         | (Inl e, w1) \<Rightarrow>
             if i = maxRetries (heap w ! this) - 1
             then call_fallback (heap w ! this) prepRes e w1
             else Node_exec_from this (i + 1) prepRes (delay (heap w ! this) w1))
      else (Inr Undefined, set_curRetry this i w))"
  by pat_completeness auto
termination
proof (relation "measure (\<lambda>(this, i, prepRes, w). nat (maxRetries (heap w ! this) - i))", goal_cases)
  case 1
  show ?case by simp
next
  case (2 this i prepRes w x1 x2 e)
  from 2(2) have "heap x2 = heap (set_curRetry this i w)"
    using heap_call_exec[of "heap w ! this" prepRes "set_curRetry this i w"] by (metis snd_conv)
  then show ?case using 2(1) by simp
qed

declare Node_exec_from.simps [simp del]

definition Node_exec :: "addr \<Rightarrow> jsval \<Rightarrow> world \<Rightarrow> (error + jsval) \<times> world" where
  "Node_exec this prepRes w = Node_exec_from this 0 prepRes w"

subsection \<open>Fan-out: \<open>BatchNode._exec\<close>\<close>

text \<open>
  \<open>async _exec(items) { return Promise.all((items || []).map(item => super._exec(item))); }\<close>

  \<open>map\<close> calls \<open>Node._exec\<close> once per element, synchronously and in order; each
  call is an \<open>async\<close> function, so it runs until its first \<open>await\<close> and then yields.
  All calls share the node object, hence \<open>this.curRetry\<close>. The event loop is modelled
  directly: a suspended call waits in the microtask queue (its awaited promise is
  already settled) or on the timer queue (the inter-attempt delay; all delays of one
  node are equal, so timers fire in the order they were set). The execute stage is
  taken to settle its promise by the time it returns.
\<close>

datatype cont =
    AfterExec "error + jsval"
  | AfterFallback jsval

datatype step = Await cont | Sleep | Finish "error + jsval"

text \<open>
  \<open>task_loop\<close> is one call of \<open>Node._exec\<close> at its loop test, with \<open>this.curRetry = c\<close>;
  \<open>task_catch\<close> is the same call entering its \<open>catch\<close> block with the error \<open>e\<close>.
  Both run until the call suspends or settles, and return the value of
  \<open>this.curRetry\<close> they leave behind.
\<close>

function task_loop :: "node \<Rightarrow> jsval \<Rightarrow> int \<Rightarrow> world \<Rightarrow> step \<times> int \<times> world"
  and task_catch :: "node \<Rightarrow> jsval \<Rightarrow> error \<Rightarrow> int \<Rightarrow> world \<Rightarrow> step \<times> int \<times> world" where
  "task_loop n item c w =
     (if c < maxRetries n then
        (case call_exec n item w of
           (Inr v, w1) \<Rightarrow> (Await (AfterExec (Inr v)), c, w1)
         | (Inl e, w1) \<Rightarrow>
             if execIsAsync n then (Await (AfterExec (Inl e)), c, w1)
             else task_catch n item e c w1)
      else (Finish (Inr Undefined), c, w))"
| "task_catch n item e c w =
     (if c = maxRetries n - 1 then
        (case call_fallback n item e w of
           (Inl e', w1) \<Rightarrow> (Finish (Inl e'), c, w1)
         | (Inr v, w1) \<Rightarrow> (Await (AfterFallback v), c, w1))
      else if wait n > 0 then (Sleep, c, delay n w)
      else task_loop n item (c + 1) w)"
  by pat_completeness auto
termination
  by (relation "measure (\<lambda>x. case x of
          Inl (n, item, c, w) \<Rightarrow> (if c < maxRetries n then 2 * nat (maxRetries n - c) + 1 else 0)
        | Inr (n, item, e, c, w) \<Rightarrow> (if c < maxRetries n then 2 * nat (maxRetries n - c) else 1))")
     auto

declare task_loop.simps [simp del] task_catch.simps [simp del]

text \<open>Resuming a suspended call: \<open>return await ...\<close> returns the value or throws into \<open>catch\<close>.\<close>

fun resume :: "node \<Rightarrow> jsval \<Rightarrow> cont \<Rightarrow> int \<Rightarrow> world \<Rightarrow> step \<times> int \<times> world" where
  "resume n item (AfterExec (Inr v)) c w = (Finish (Inr v), c, w)"
| "resume n item (AfterExec (Inl e)) c w = task_catch n item e c w"
| "resume n item (AfterFallback v) c w = (Finish (Inr v), c, w)"

record sched =
  cur :: int
  micro :: "(nat \<times> jsval \<times> cont) list"
  timers :: "(nat \<times> jsval) list"
  settled :: "(nat \<times> (error + jsval)) list"

text \<open>Where the call for element \<open>idx\<close> goes after a run: a queue, or settled.\<close>

fun place :: "nat \<Rightarrow> jsval \<Rightarrow> step \<times> int \<times> world \<Rightarrow> sched \<Rightarrow> sched \<times> world" where
  "place idx item (Await k, c, w) s = (s\<lparr>cur := c, micro := micro s @ [(idx, item, k)]\<rparr>, w)"
| "place idx item (Sleep, c, w) s = (s\<lparr>cur := c, timers := timers s @ [(idx, item)]\<rparr>, w)"
| "place idx item (Finish r, c, w) s =
     (s\<lparr>cur := c, settled := settled s @ [(idx, r)]\<rparr>, emit (Settled idx) w)"

text \<open>The \<open>map\<close>: every call starts with \<open>this.curRetry = 0\<close>.\<close>

fun start_all :: "node \<Rightarrow> nat \<Rightarrow> jsval list \<Rightarrow> sched \<times> world \<Rightarrow> sched \<times> world" where
  "start_all n idx [] sw = sw"
| "start_all n idx (item # items) (s, w) =
     start_all n (Suc idx) items (place idx item (task_loop n item 0 w) s)"

text \<open>
  The event loop until nothing is pending: microtasks first, in order; then the oldest
  timer, whose call resumes at the loop's \<open>this.curRetry++\<close>.
\<close>

fun drain :: "nat \<Rightarrow> node \<Rightarrow> sched \<times> world \<Rightarrow> (sched \<times> world) option" where
  "drain f n (s, w) =
     (case micro s of
        (idx, item, k) # rest \<Rightarrow>
          (case f of
             0 \<Rightarrow> None
           | Suc f' \<Rightarrow> drain f' n (place idx item (resume n item k (cur s) w) (s\<lparr>micro := rest\<rparr>)))
      | [] \<Rightarrow>
          (case timers s of
             (idx, item) # rest \<Rightarrow>
               (case f of
                  0 \<Rightarrow> None
                | Suc f' \<Rightarrow>
                    drain f' n (place idx item (task_loop n item (cur s + 1) w) (s\<lparr>timers := rest\<rparr>)))
           | [] \<Rightarrow> Some (s, w)))"

text \<open>
  \<open>Promise.all\<close>: rejects with the first rejection to happen, otherwise fulfils with
  the values in input order.
\<close>

fun first_rejection :: "(nat \<times> (error + jsval)) list \<Rightarrow> error option" where
  "first_rejection [] = None"
| "first_rejection ((idx, Inl e) # rs) = Some e"
| "first_rejection ((idx, Inr v) # rs) = first_rejection rs"

definition value_of :: "(nat \<times> (error + jsval)) list \<Rightarrow> nat \<Rightarrow> jsval" where
  "value_of rs idx = (case map_of rs idx of Some (Inr v) \<Rightarrow> v | _ \<Rightarrow> Undefined)"

definition promise_all :: "nat \<Rightarrow> (nat \<times> (error + jsval)) list \<Rightarrow> error + jsval" where
  "promise_all len rs =
     (case first_rejection rs of
        Some e \<Rightarrow> Inl e
      | None \<Rightarrow> Inr (Arr (map (value_of rs) [0..<len])))"

text \<open>\<open>(items || []).map\<close>: only an array has \<open>map\<close>.\<close>

fun items_of :: "jsval \<Rightarrow> error + jsval list" where
  "items_of (Arr xs) = Inr xs"
| "items_of v = (if truthy v then Inl (TypeError ''(items || []).map is not a function'') else Inr [])"

definition BatchNode_exec :: "nat \<Rightarrow> addr \<Rightarrow> jsval \<Rightarrow> world \<Rightarrow> ((error + jsval) \<times> world) option" where
  "BatchNode_exec f this items w =
     (case items_of items of
        Inl e \<Rightarrow> Some (Inl e, w)
      | Inr xs \<Rightarrow>
          (case drain f (heap w ! this)
                  (start_all (heap w ! this) 0 xs
                     (\<lparr>cur = curRetry (heap w ! this), micro = [], timers = [], settled = []\<rparr>, w)) of
             None \<Rightarrow> None
           | Some (s, w1) \<Rightarrow> Some (promise_all (length xs) (settled s), set_curRetry this (cur s) w1)))"


subsection \<open>Lifecycle: \<open>_run\<close>\<close>

text \<open>
  \<open>BaseNode._run\<close>: \<open>const p = this.prep(shared); return this.post(shared, p, await this._exec(p));\<close>
  with \<open>_exec\<close> that of the class. A stage that throws ends the lifecycle with the
  error; what it did to the shared context before stays done.
\<close>

definition run_prep :: "addr \<Rightarrow> world \<Rightarrow> (error + jsval) \<times> world" where
  "run_prep this w =
     (case prep (heap w ! this) (ticks w) (shared w) of
        (r, sh, t) \<Rightarrow> (r, w\<lparr>shared := sh, ticks := t\<rparr>))"

definition run_post :: "addr \<Rightarrow> jsval \<Rightarrow> jsval \<Rightarrow> world \<Rightarrow> jsval outcome \<times> world" where
  "run_post this p r w =
     (case post (heap w ! this) (ticks w) (shared w) p r of
        (Inl e, sh, t) \<Rightarrow> (Raise e, w\<lparr>shared := sh, ticks := t\<rparr>)
      | (Inr label, sh, t) \<Rightarrow> (Return label, w\<lparr>shared := sh, ticks := t\<rparr>))"

definition Node_run :: "addr \<Rightarrow> world \<Rightarrow> jsval outcome \<times> world" where
  "Node_run this w =
     (case run_prep this w of
        (Inl e, w0) \<Rightarrow> (Raise e, w0)
      | (Inr p, w0) \<Rightarrow>
          (case Node_exec this p w0 of
             (Inl e, w1) \<Rightarrow> (Raise e, w1)
           | (Inr r, w1) \<Rightarrow> run_post this p r w1))"

definition BatchNode_run :: "nat \<Rightarrow> addr \<Rightarrow> world \<Rightarrow> jsval outcome \<times> world" where
  "BatchNode_run f this w =
     (case run_prep this w of
        (Inl e, w0) \<Rightarrow> (Raise e, w0)
      | (Inr p, w0) \<Rightarrow>
          (case BatchNode_exec f this p w0 of
             None \<Rightarrow> (Timeout, w0)
           | Some (Inl e, w1) \<Rightarrow> (Raise e, w1)
           | Some (Inr r, w1) \<Rightarrow> run_post this p r w1))"

subsection \<open>Traversal: \<open>Flow.getNextNode\<close> and \<open>Flow._orch\<close>\<close>

text \<open>
  \<open>const nxt = curr.successors[action || "default"]; ... return nxt;\<close>
  (the warning about a dead end is console output only). The read converts the label
  to a property key, which may throw, and finds an own entry of the map, or else a
  member inherited from \<open>Object.prototype\<close> (a function, or for \<open>__proto__\<close> that
  prototype itself: truthy, and not a node), or else nothing.
\<close>

datatype found = Absent | NodeAt addr | Inherited string

definition getNextNode :: "node \<Rightarrow> jsval \<Rightarrow> error + found" where
  "getNextNode nd action =
     (case toString (js_or action (Str ''default'')) of
        Inl e \<Rightarrow> Inl e
      | Inr k \<Rightarrow>
          (case lookup (successors nd) k of
             Some nxt \<Rightarrow> Inr (NodeAt nxt)
           | None \<Rightarrow> Inr (if inherited k then Inherited k else Absent)))"

text \<open>
  \<open>{ ...x }\<close>: the own enumerable properties of \<open>x\<close> (the indices of an array or a
  string), nothing for a primitive.
\<close>

fun indexed :: "nat \<Rightarrow> 'a list \<Rightarrow> (string \<times> 'a) list" where
  "indexed i [] = []"
| "indexed i (x # xs) = (string_of_nat i, x) # indexed (Suc i) xs"

fun spread :: "jsval \<Rightarrow> jsval" where
  "spread (Obj kvs) = Obj kvs"
| "spread (Arr xs) = Obj (indexed 0 xs)"
| "spread (Str s) = Obj (indexed 0 (map (\<lambda>c. Str [c]) s))"
| "spread v = Obj []"

text \<open>
  \<open>curr = { ...node }; Object.setPrototypeOf(curr, Object.getPrototypeOf(node));\<close>
  a fresh object with the same fields and class.
\<close>

definition clone :: "addr \<Rightarrow> world \<Rightarrow> addr \<times> world" where
  "clone a w = alloc (heap w ! a) w"

definition is_flow :: "cls \<Rightarrow> bool" where
  "is_flow c \<longleftrightarrow> c = FlowC \<or> c = AsyncFlowC \<or> c = AsyncBatchFlowC"

text \<open>
  The engine under the synchronous entry point \<open>run\<close>, with fuel as a flow may cycle
  forever: one unit per hop of \<open>_orch\<close>'s loop (and per step of a batch's event loop);
  \<open>Timeout\<close> is a run that has not returned. \<open>run_node\<close> is \<open>curr._run(shared)\<close> by
  class: \<open>Flow._run\<close> is \<open>this.post(shared, this.prep(shared), await this._orch(shared))\<close>,
  and \<open>AsyncNode._run\<close> throws. \<open>orch_loop f p origin cn\<close> is the \<open>while (curr)\<close>
  loop of \<open>_orch\<close>, \<open>cn\<close> (the source's \<open>curr\<close>) being a clone of the node registered at \<open>origin\<close>.
  What \<open>getNextNode\<close> returns is tested for truthiness only: when it is an inherited
  member, \<open>curr\<close> becomes a copy of that member, and the next turn of the loop throws
  at \<open>curr.setParams(p)\<close>, as it does for a successor entry that is not a node object.
\<close>

fun run_node :: "nat \<Rightarrow> addr \<Rightarrow> world \<Rightarrow> jsval outcome \<times> world"
  and orch_loop :: "nat \<Rightarrow> jsval \<Rightarrow> addr \<Rightarrow> addr \<Rightarrow> world \<Rightarrow> jsval outcome \<times> world" where
  "run_node f this w =
     (case cls (heap w ! this) of
        NodeC \<Rightarrow> Node_run this w
      | BatchNodeC \<Rightarrow> BatchNode_run f this w
      | AsyncNodeC \<Rightarrow> (Raise (Error ''Use runAsync.''), w)
      | AsyncParallelBatchNodeC \<Rightarrow> (Raise (Error ''Use runAsync.''), w)
      | _ \<Rightarrow>
          (case run_prep this w of
             (Inl e, w0) \<Rightarrow> (Raise e, w0)
           | (Inr pr, w0) \<Rightarrow>
               (case startNode (heap w0 ! this) of
                  None \<Rightarrow> (Raise (TypeError ''Cannot convert undefined or null to object''), w0)
                | Some s \<Rightarrow>
                    if s < length (heap w0) then
                      (case orch_loop f (spread (params (heap w0 ! this))) s (fst (clone s w0)) (snd (clone s w0)) of
                         (Return r, w1) \<Rightarrow> run_post this pr r w1
                       | (Raise e, w1) \<Rightarrow> (Raise e, w1)
                       | (Timeout, w1) \<Rightarrow> (Timeout, w1))
                    else (Raise (TypeError ''curr.setParams is not a function''), w0))))"
| "orch_loop 0 p origin cn w = (Timeout, w)"
| "orch_loop (Suc f) p origin cn w =
     (case run_node f cn (emit (Lifecycle origin) (setParams cn p w)) of
        (Return lastAction, w1) \<Rightarrow>
          (case getNextNode (heap w1 ! cn) lastAction of
             Inl e \<Rightarrow> (Raise e, w1)
           | Inr Absent \<Rightarrow> (Return lastAction, w1)
           | Inr (NodeAt nxt) \<Rightarrow>
               if nxt < length (heap w1) then orch_loop f p nxt (fst (clone nxt w1)) (snd (clone nxt w1))
               else (Raise (TypeError ''curr.setParams is not a function''), w1)
           | Inr (Inherited k) \<Rightarrow> (Raise (TypeError ''curr.setParams is not a function''), w1))
      | (Raise e, w1) \<Rightarrow> (Raise e, w1)
      | (Timeout, w1) \<Rightarrow> (Timeout, w1))"

text \<open>\<open>run(shared)\<close> is \<open>_run(shared)\<close> after a console warning.\<close>

definition run :: "nat \<Rightarrow> addr \<Rightarrow> world \<Rightarrow> jsval outcome \<times> world" where
  "run f this w = run_node f this w"


section \<open>Properties of the engine\<close>

declare run_node.simps [simp del]

text \<open>The exec/delay events of the attempts that remain when \<open>m\<close> attempts are left.\<close>

fun attempts :: "jsval \<Rightarrow> int \<Rightarrow> nat \<Rightarrow> event list" where
  "attempts p wt 0 = []"
| "attempts p wt (Suc 0) = [ExecCall p]"
| "attempts p wt (Suc (Suc m)) =
     ExecCall p # (if wt > 0 then [Delay wt] else []) @ attempts p wt (Suc m)"

definition after_call :: "addr \<Rightarrow> int \<Rightarrow> jsval \<Rightarrow> world \<Rightarrow> world" where
  "after_call this i p w = snd (call_exec (heap w ! this) p (set_curRetry this i w))"

lemma after_call_world:
  "ticks (after_call this i p w) = Suc (ticks w)"
  "trace (after_call this i p w) = trace w @ [ExecCall p]"
  "heap (after_call this i p w) = heap (set_curRetry this i w)"
  "shared (after_call this i p w) = shared w"
  by (simp_all add: after_call_def call_exec_def)

lemma Node_exec_from_fail_step:
  assumes "exec (heap w ! this) (ticks w) p = Inl e" and "i < maxRetries (heap w ! this)"
  shows "Node_exec_from this i p w =
           (if i = maxRetries (heap w ! this) - 1
            then call_fallback (heap w ! this) p e (after_call this i p w)
            else Node_exec_from this (i + 1) p (delay (heap w ! this) (after_call this i p w)))"
  using assms
  by (subst Node_exec_from.simps) (simp add: call_exec_def after_call_def)

lemma Node_exec_from_all_fail:
  assumes "\<forall>t. \<exists>e. exec (heap w ! this) t p = Inl e"
    and "maxRetries (heap w ! this) = int k" and "i + Suc m = k"
  shows "fst (Node_exec_from this (int i) p w)
           = execFallback (heap w ! this) p (projl (exec (heap w ! this) (ticks w + m) p))
       \<and> trace (snd (Node_exec_from this (int i) p w))
           = trace w @ attempts p (wait (heap w ! this)) (Suc m)
               @ [FallbackCall p (projl (exec (heap w ! this) (ticks w + m) p))]"
  using assms
proof (induction m arbitrary: i w)
  case 0
  obtain e where e: "exec (heap w ! this) (ticks w) p = Inl e" using "0.prems"(1) by blast
  have "Node_exec_from this (int i) p w = call_fallback (heap w ! this) p e (after_call this (int i) p w)"
    using Node_exec_from_fail_step[OF e, of "int i"] "0.prems" by simp
  then show ?case using e
    by (simp add: call_fallback_def emit_def after_call_world)
next
  case (Suc m)
  obtain e where e: "exec (heap w ! this) (ticks w) p = Inl e" using Suc.prems(1) by blast
  let ?w2 = "delay (heap w ! this) (after_call this (int i) p w)"
  have h: "heap ?w2 = heap (set_curRetry this (int i) w)"
    by (simp add: after_call_world)
  have step: "Node_exec_from this (int i) p w = Node_exec_from this (int (Suc i)) p ?w2"
    using Node_exec_from_fail_step[OF e, of "int i"] Suc.prems(2,3) by (simp add: add.commute)
  have tk: "ticks ?w2 = Suc (ticks w)"
    by (simp add: delay_def emit_def after_call_world)
  have tr: "trace ?w2 = trace w @ ExecCall p # (if wait (heap w ! this) > 0 then [Delay (wait (heap w ! this))] else [])"
    by (simp add: delay_def emit_def after_call_world)
  have IH: "fst (Node_exec_from this (int (Suc i)) p ?w2)
           = execFallback (heap ?w2 ! this) p (projl (exec (heap ?w2 ! this) (ticks ?w2 + m) p))
       \<and> trace (snd (Node_exec_from this (int (Suc i)) p ?w2))
           = trace ?w2 @ attempts p (wait (heap ?w2 ! this)) (Suc m)
               @ [FallbackCall p (projl (exec (heap ?w2 ! this) (ticks ?w2 + m) p))]"
    apply (rule Suc.IH)
    using Suc.prems by (simp_all add: after_call_world)
  show ?case
    unfolding step using IH by (simp add: after_call_world tk tr)
qed

definition is_ExecCall :: "event \<Rightarrow> bool" where
  "is_ExecCall ev = (case ev of ExecCall p \<Rightarrow> True | _ \<Rightarrow> False)"

definition is_FallbackCall :: "event \<Rightarrow> bool" where
  "is_FallbackCall ev = (case ev of FallbackCall p e \<Rightarrow> True | _ \<Rightarrow> False)"

definition is_Delay :: "event \<Rightarrow> bool" where
  "is_Delay ev = (case ev of Delay d \<Rightarrow> True | _ \<Rightarrow> False)"

lemma attempts_kinds:
  "length (filter is_ExecCall (attempts p wt m)) = m"
  "length (filter is_Delay (attempts p wt m)) = (if wt > 0 then m - 1 else 0)"
  "filter is_FallbackCall (attempts p wt m) = []"
  by (induction p wt m rule: attempts.induct) (auto simp: is_ExecCall_def is_Delay_def is_FallbackCall_def)


lemma run_prep_world [simp]:
  "heap (snd (run_prep this w)) = heap w"
  "trace (snd (run_prep this w)) = trace w"
  by (simp_all add: run_prep_def split: prod.splits)

lemma run_post_world [simp]:
  "heap (snd (run_post this p r w)) = heap w"
  "trace (snd (run_post this p r w)) = trace w"
  by (simp_all add: run_post_def split: prod.splits sum.splits)

text \<open>
  C1. A node with retry policy \<open>maxAttempts = k\<close>, \<open>k \<ge> 1\<close>, whose prepare stage
  returns \<open>p\<close> and whose execute stage throws on every call (an error of the program,
  not a place where the model gives up): its lifecycle calls the
  execute stage exactly \<open>k\<close> times, then the fallback hook exactly once, with \<open>p\<close> and
  the error of the last attempt. What the hook does with them is the outcome of the
  execute phase: an error it throws ends the lifecycle, a value it returns goes to the
  post stage; so with the default hook the lifecycle raises the last error. The events
  of the lifecycle are exactly \<open>attempts p wait k\<close> followed by the fallback call, so a
  delay (present only when \<open>wait > 0\<close>) stands after every attempt but the last, that
  is, between consecutive attempts only.
\<close>

theorem retry_exhaustion:
  assumes policy: "maxRetries (heap w ! this) = int k" "1 \<le> k"
    and prepared: "prep (heap w ! this) (ticks w) (shared w) = (Inr p, sh, t)"
    and always_throws: "\<forall>t'. \<exists>e. exec (heap w ! this) t' p = Inl e \<and> (\<forall>x. e \<noteq> OutsideModel x)"
  defines "last_error \<equiv> projl (exec (heap w ! this) (t + (k - 1)) p)"
    and "events \<equiv> drop (length (trace w)) (trace (snd (Node_run this w)))"
    and "executed \<equiv> Node_exec this p (snd (run_prep this w))"
  shows "trace (snd (Node_run this w)) = trace w @ events
       \<and> events = attempts p (wait (heap w ! this)) k @ [FallbackCall p last_error]
       \<and> length (filter is_ExecCall events) = k
       \<and> filter is_FallbackCall events = [FallbackCall p last_error]
       \<and> length (filter is_Delay events) = (if wait (heap w ! this) > 0 then k - 1 else 0)
       \<and> fst executed = execFallback (heap w ! this) p last_error
       \<and> Node_run this w =
           (case execFallback (heap w ! this) p last_error of
              Inl e \<Rightarrow> (Raise e, snd executed)
            | Inr v \<Rightarrow> run_post this p v (snd executed))
       \<and> (execFallback (heap w ! this) = (\<lambda>p e. Inl e) \<longrightarrow> fst (Node_run this w) = Raise last_error)"
proof -
  obtain m where m: "k = Suc m" using policy(2) by (cases k) auto
  define w0 where "w0 = w\<lparr>shared := sh, ticks := t\<rparr>"
  have rp: "run_prep this w = (Inr p, w0)"
    by (simp add: run_prep_def prepared w0_def)
  have ex: "executed = Node_exec this p w0"
    by (simp add: executed_def rp)
  have throws: "\<forall>t'. \<exists>e. exec (heap w ! this) t' p = Inl e"
    using always_throws by blast
  have core: "fst executed = execFallback (heap w ! this) p last_error
     \<and> trace (snd executed) = trace w @ attempts p (wait (heap w ! this)) k @ [FallbackCall p last_error]"
    using Node_exec_from_all_fail[of w0 this p k 0 m] throws policy(1) m
    by (simp add: last_error_def ex Node_exec_def w0_def)
  have run: "Node_run this w =
           (case execFallback (heap w ! this) p last_error of
              Inl e \<Rightarrow> (Raise e, snd executed)
            | Inr v \<Rightarrow> run_post this p v (snd executed))"
    using core by (cases "Node_exec this p w0") (auto simp: Node_run_def rp ex split: sum.splits)
  have run_trace: "trace (snd (Node_run this w)) = trace (snd executed)"
    unfolding run by (simp split: sum.splits)
  have ev: "events = attempts p (wait (heap w ! this)) k @ [FallbackCall p last_error]"
    by (simp add: events_def run_trace core)
  have raise: "execFallback (heap w ! this) = (\<lambda>p e. Inl e) \<Longrightarrow> fst (Node_run this w) = Raise last_error"
    unfolding run by simp
  show ?thesis
    using ev raise run run_trace core
    by (simp add: attempts_kinds is_FallbackCall_def is_ExecCall_def is_Delay_def)
qed

text \<open>
  A node with three attempts and a wait of two seconds whose execute stage throws the
  reading of the clock, once with the default hook and once with a hook that returns
  a value, which the post stage (here: return the execute result as the label) receives.
\<close>

definition always_failing :: node where
  "always_failing = (new_Node NodeC 3 2)\<lparr>exec := (\<lambda>t p. Inl (Thrown (Num (int t))))\<rparr>"

definition failing_world :: world where
  "failing_world = \<lparr>heap = [always_failing], shared = Obj [], trace = [], ticks = 0\<rparr>"

definition recovering :: node where
  "recovering = always_failing
     \<lparr>execFallback := (\<lambda>p e. Inr (Arr [Str ''recovered from'', case e of Thrown v \<Rightarrow> v | _ \<Rightarrow> Null])),
      post := (\<lambda>t sh p r. (Inr r, sh, t))\<rparr>"

definition recovering_world :: world where
  "recovering_world = \<lparr>heap = [recovering], shared = Obj [], trace = [], ticks = 0\<rparr>"

theorem retry_exhaustion_witness:
  "trace (snd (Node_run 0 failing_world)) =
     [ExecCall Undefined, Delay 2, ExecCall Undefined, Delay 2, ExecCall Undefined,
      FallbackCall Undefined (Thrown (Num 2))]
   \<and> fst (Node_run 0 failing_world) = Raise (Thrown (Num 2))
   \<and> trace (snd (Node_run 0 recovering_world)) =
     [ExecCall Undefined, Delay 2, ExecCall Undefined, Delay 2, ExecCall Undefined,
      FallbackCall Undefined (Thrown (Num 2))]
   \<and> fst (Node_run 0 recovering_world) = Return (Arr [Str ''recovered from'', Num 2])"
proof -
  have n: "heap failing_world ! 0 = always_failing" "shared failing_world = Obj []"
    "trace failing_world = []" "ticks failing_world = 0"
    by (simp_all add: failing_world_def)
  have f: "maxRetries always_failing = int 3" "wait always_failing = 2"
    "prep always_failing 0 (Obj []) = (Inr Undefined, Obj [], 0)"
    "\<forall>t. \<exists>e. exec always_failing t Undefined = Inl e \<and> (\<forall>x. e \<noteq> OutsideModel x)"
    "execFallback always_failing = (\<lambda>p e. Inl e)"
    "\<And>t. projl (exec always_failing t Undefined) = Thrown (Num (int t))"
    by (simp_all add: always_failing_def new_Node_def)
  have p: "maxRetries (heap failing_world ! 0) = int 3" "1 \<le> (3::nat)"
    "prep (heap failing_world ! 0) (ticks failing_world) (shared failing_world) = (Inr Undefined, Obj [], 0)"
    "\<forall>t. \<exists>e. exec (heap failing_world ! 0) t Undefined = Inl e \<and> (\<forall>x. e \<noteq> OutsideModel x)"
    by (simp_all add: n f)
  note R = retry_exhaustion[OF p]
  have a1: "trace (snd (Node_run 0 failing_world)) =
     [ExecCall Undefined, Delay 2, ExecCall Undefined, Delay 2, ExecCall Undefined,
      FallbackCall Undefined (Thrown (Num 2))]"
    using R[THEN conjunct1] R[THEN conjunct2, THEN conjunct1]
    by (simp add: n f eval_nat_numeral)
  have a2: "fst (Node_run 0 failing_world) = Raise (Thrown (Num 2))"
    using R[THEN conjunct2, THEN conjunct2, THEN conjunct2, THEN conjunct2, THEN conjunct2,
            THEN conjunct2, THEN conjunct2]
    by (simp add: n f eval_nat_numeral)
  have n': "heap recovering_world ! 0 = recovering" "shared recovering_world = Obj []"
    "trace recovering_world = []" "ticks recovering_world = 0"
    by (simp_all add: recovering_world_def)
  have f': "maxRetries recovering = int 3" "wait recovering = 2"
    "prep recovering 0 (Obj []) = (Inr Undefined, Obj [], 0)"
    "\<forall>t. \<exists>e. exec recovering t Undefined = Inl e \<and> (\<forall>x. e \<noteq> OutsideModel x)"
    "\<And>t. projl (exec recovering t Undefined) = Thrown (Num (int t))"
    "\<And>e. execFallback recovering Undefined e =
            Inr (Arr [Str ''recovered from'', case e of Thrown v \<Rightarrow> v | _ \<Rightarrow> Null])"
    "post recovering = (\<lambda>t sh p r. (Inr r, sh, t))"
    by (simp_all add: recovering_def always_failing_def new_Node_def)
  have p': "maxRetries (heap recovering_world ! 0) = int 3" "1 \<le> (3::nat)"
    "prep (heap recovering_world ! 0) (ticks recovering_world) (shared recovering_world)
       = (Inr Undefined, Obj [], 0)"
    "\<forall>t. \<exists>e. exec (heap recovering_world ! 0) t Undefined = Inl e \<and> (\<forall>x. e \<noteq> OutsideModel x)"
    by (simp_all add: n' f')
  note R' = retry_exhaustion[OF p']
  have b1: "trace (snd (Node_run 0 recovering_world)) =
     [ExecCall Undefined, Delay 2, ExecCall Undefined, Delay 2, ExecCall Undefined,
      FallbackCall Undefined (Thrown (Num 2))]"
    using R'[THEN conjunct1] R'[THEN conjunct2, THEN conjunct1]
    by (simp add: n' f' eval_nat_numeral)
  have h: "post (heap (snd (Node_exec 0 Undefined (snd (run_prep 0 recovering_world)))) ! 0)
             = (\<lambda>t sh p r. (Inr r, sh, t))"
    by (simp add: Node_exec_def Node_exec_from.simps run_prep_def recovering_world_def
        recovering_def always_failing_def new_Node_def call_exec_def call_fallback_def delay_def
        emit_def set_curRetry_def update_node_def)
  have b2: "fst (Node_run 0 recovering_world) = Return (Arr [Str ''recovered from'', Num 2])"
    using R'[THEN conjunct2, THEN conjunct2, THEN conjunct2, THEN conjunct2, THEN conjunct2,
             THEN conjunct2, THEN conjunct1] h
    by (simp add: n' f' eval_nat_numeral run_post_def)
  from a1 a2 b1 b2 show ?thesis by simp
qed


text \<open>
  \<open>touches this w w'\<close>: from \<open>w\<close> to \<open>w'\<close> no object was allocated and no object other
  than the one at \<open>this\<close> was written. \<open>extends n0 w w'\<close>: the objects at addresses
  below \<open>n0\<close> are as they were, and no object was dropped.
\<close>

definition touches :: "addr \<Rightarrow> world \<Rightarrow> world \<Rightarrow> bool" where
  "touches this w w' \<longleftrightarrow>
     length (heap w') = length (heap w) \<and> (\<forall>a. a \<noteq> this \<longrightarrow> heap w' ! a = heap w ! a)"

definition extends :: "nat \<Rightarrow> world \<Rightarrow> world \<Rightarrow> bool" where
  "extends n0 w w' \<longleftrightarrow>
     length (heap w) \<le> length (heap w') \<and> (\<forall>a < n0. heap w' ! a = heap w ! a)"

lemma touches_refl [simp]: "touches this w w"
  by (simp add: touches_def)

lemma touches_trans: "touches this w w1 \<Longrightarrow> touches this w1 w2 \<Longrightarrow> touches this w w2"
  by (simp add: touches_def)

lemma touches_heap_eq: "heap w' = heap w \<Longrightarrow> touches this w w'"
  by (simp add: touches_def)

lemma touches_update_node [simp]: "touches this w (update_node this g w)"
  by (simp add: touches_def update_node_def)

lemma touches_set_curRetry [simp]: "touches this w (set_curRetry this i w)"
  by (simp add: set_curRetry_def)

lemma extends_refl [simp]: "extends n0 w w"
  by (simp add: extends_def)

lemma extends_trans: "extends n0 w w1 \<Longrightarrow> extends n0 w1 w2 \<Longrightarrow> extends n0 w w2"
  by (auto simp: extends_def)

lemma touches_extends: "touches this w w' \<Longrightarrow> n0 \<le> this \<Longrightarrow> extends n0 w w'"
  by (auto simp: touches_def extends_def)

lemma extends_heap_eq: "heap w' = heap w \<Longrightarrow> extends n0 w w'"
  by (simp add: extends_def)

lemma extends_clone: "n0 \<le> length (heap w) \<Longrightarrow> extends n0 w (snd (clone a w))"
  by (simp add: extends_def clone_def alloc_def nth_append)

lemma fst_clone [simp]: "fst (clone a w) = length (heap w)"
  by (simp add: clone_def alloc_def)

lemma length_heap_clone [simp]: "length (heap (snd (clone a w))) = Suc (length (heap w))"
  by (simp add: clone_def alloc_def)

lemma call_exec_heap: "call_exec n p w = (r, w1) \<Longrightarrow> heap w1 = heap w"
  by (auto simp: call_exec_def)

lemma call_fallback_heap: "call_fallback n p e w = (r, w1) \<Longrightarrow> heap w1 = heap w"
  by (auto simp: call_fallback_def)

lemma touches_Node_exec_from: "touches this w (snd (Node_exec_from this i p w))"
proof (induction this i p w rule: Node_exec_from.induct)
  case (1 this i prepRes w)
  let ?w0 = "set_curRetry this i w"
  show ?case
  proof (cases "i < maxRetries (heap w ! this)")
    case False
    then show ?thesis by (subst Node_exec_from.simps) simp
  next
    case True
    obtain r w1 where c: "call_exec (heap w ! this) prepRes ?w0 = (r, w1)"
      by (cases "call_exec (heap w ! this) prepRes ?w0")
    have "touches this ?w0 w1"
      using call_exec_heap[OF c] by (rule touches_heap_eq)
    then have w1: "touches this w w1"
      using touches_set_curRetry touches_trans by blast
    show ?thesis
    proof (cases r)
      case (Inr v)
      then show ?thesis using True c w1 by (subst Node_exec_from.simps) simp
    next
      case (Inl e)
      show ?thesis
      proof (cases "i = maxRetries (heap w ! this) - 1")
        case last: True
        have "touches this w1 (snd (call_fallback (heap w ! this) prepRes e w1))"
          by (simp add: touches_heap_eq)
        then have "touches this w (snd (call_fallback (heap w ! this) prepRes e w1))"
          using w1 touches_trans by blast
        then show ?thesis using True c Inl last
          by (subst Node_exec_from.simps) simp
      next
        case more: False
        have "touches this (delay (heap w ! this) w1)
                (snd (Node_exec_from this (i + 1) prepRes (delay (heap w ! this) w1)))"
          using "1.IH"[OF True c[symmetric] Inl more] .
        moreover have "touches this w1 (delay (heap w ! this) w1)"
          by (simp add: touches_heap_eq)
        ultimately have "touches this w
                (snd (Node_exec_from this (i + 1) prepRes (delay (heap w ! this) w1)))"
          using w1 touches_trans by blast
        then show ?thesis using True c Inl more
          by (subst Node_exec_from.simps) simp
      qed
    qed
  qed
qed

lemma touches_Node_run: "touches this w (snd (Node_run this w))"
proof -
  obtain r0 w0 where rp: "run_prep this w = (r0, w0)" by (cases "run_prep this w")
  then have h0: "heap w0 = heap w" using run_prep_world(1)[of this w] by simp
  show ?thesis
  proof (cases r0)
    case (Inl e)
    then show ?thesis using rp h0 by (simp add: Node_run_def touches_heap_eq)
  next
    case p: (Inr p)
    obtain r w1 where r: "Node_exec this p w0 = (r, w1)" by (cases "Node_exec this p w0")
    then have "touches this w0 w1"
      using touches_Node_exec_from[where this=this and i=0 and p=p and w=w0] by (simp add: Node_exec_def)
    then have w1: "touches this w w1" using h0 by (simp add: touches_def)
    show ?thesis
    proof (cases r)
      case (Inl e)
      then show ?thesis using rp p r w1 by (simp add: Node_run_def)
    next
      case (Inr v)
      have "touches this w1 (snd (run_post this p v w1))" by (simp add: touches_heap_eq)
      then have "touches this w (snd (run_post this p v w1))" using w1 touches_trans by blast
      then show ?thesis using rp p Inr r by (simp add: Node_run_def)
    qed
  qed
qed

lemma heap_place [simp]: "heap (snd (place idx item (st, c, w) s)) = heap w"
  by (cases st) simp_all

lemma heap_task:
  "heap (snd (snd (task_loop n item c w))) = heap w"
  "heap (snd (snd (task_catch n item e c w))) = heap w"
proof (induction n item c w and n item e c w rule: task_loop_task_catch.induct)
  case (1 n item c w)
  show ?case
    using "1.IH"
    by (subst task_loop.simps) (auto split: prod.splits sum.splits dest: call_exec_heap)
next
  case (2 n item e c w)
  show ?case
    using "2.IH"
    by (subst task_catch.simps) (auto split: prod.splits sum.splits dest: call_fallback_heap)
qed

lemma heap_resume: "heap (snd (snd (resume n item k c w))) = heap w"
  by (cases "(n, item, k, c, w)" rule: resume.cases) (simp_all add: heap_task)

lemma heap_place_task: "heap (snd (place idx item (task_loop n item c w) s)) = heap w"
  using heap_task(1)[of n item c w] by (cases "task_loop n item c w") simp

lemma heap_place_resume: "heap (snd (place idx item (resume n item k c w) s)) = heap w"
  using heap_resume[of n item k c w] by (cases "resume n item k c w") simp

lemma heap_start_all: "heap (snd (start_all n idx items sw)) = heap (snd sw)"
  by (induction n idx items sw rule: start_all.induct) (simp_all add: heap_place_task)

declare drain.simps [simp del]

lemma heap_drain: "drain f n (s, w) = Some (s', w') \<Longrightarrow> heap w' = heap w"
proof (induction f arbitrary: s w)
  case 0
  then show ?case
    by (subst (asm) drain.simps) (auto split: list.splits prod.splits)
next
  case (Suc f)
  show ?case
  proof (cases "micro s")
    case (Cons m rest)
    obtain idx item k where m: "m = (idx, item, k)" by (cases m)
    obtain s1 w1 where p: "place idx item (resume n item k (cur s) w) (s\<lparr>micro := rest\<rparr>) = (s1, w1)"
      by (cases "place idx item (resume n item k (cur s) w) (s\<lparr>micro := rest\<rparr>)")
    have "drain f n (s1, w1) = Some (s', w')"
      using Suc.prems Cons m p by (subst (asm) drain.simps) simp
    then have "heap w' = heap w1" by (rule Suc.IH)
    moreover have "heap w1 = heap w"
      using heap_place_resume[of idx item n k "cur s" w "s\<lparr>micro := rest\<rparr>"] p by simp
    ultimately show ?thesis by simp
  next
    case Nil
    show ?thesis
    proof (cases "timers s")
      case tn: Nil
      then show ?thesis using Suc.prems Nil by (subst (asm) drain.simps) simp
    next
      case (Cons m rest)
      obtain idx item where m: "m = (idx, item)" by (cases m)
      obtain s1 w1 where p: "place idx item (task_loop n item (cur s + 1) w) (s\<lparr>timers := rest\<rparr>) = (s1, w1)"
        by (cases "place idx item (task_loop n item (cur s + 1) w) (s\<lparr>timers := rest\<rparr>)")
      have "drain f n (s1, w1) = Some (s', w')"
        using Suc.prems Nil Cons m p by (subst (asm) drain.simps) simp
      then have "heap w' = heap w1" by (rule Suc.IH)
      moreover have "heap w1 = heap w"
        using heap_place_task[of idx item n "cur s + 1" w "s\<lparr>timers := rest\<rparr>"] p by simp
      ultimately show ?thesis by simp
    qed
  qed
qed

lemma touches_BatchNode_exec:
  "BatchNode_exec f this items w = Some (r, w') \<Longrightarrow> touches this w w'"
proof (cases "items_of items")
  case (Inl e)
  assume "BatchNode_exec f this items w = Some (r, w')"
  with Inl show ?thesis by (simp add: BatchNode_exec_def)
next
  case (Inr xs)
  assume b: "BatchNode_exec f this items w = Some (r, w')"
  let ?init = "(\<lparr>cur = curRetry (heap w ! this), micro = [], timers = [], settled = []\<rparr>, w)"
  obtain s0 w0 where st: "start_all (heap w ! this) 0 xs ?init = (s0, w0)"
    by (cases "start_all (heap w ! this) 0 xs ?init")
  have h0: "heap w0 = heap w"
    using heap_start_all[of "heap w ! this" 0 xs ?init] st by simp
  from b Inr st obtain s1 w1 where d: "drain f (heap w ! this) (s0, w0) = Some (s1, w1)"
    and w': "w' = set_curRetry this (cur s1) w1"
    by (auto simp: BatchNode_exec_def split: option.splits)
  have "heap w1 = heap w" using heap_drain[OF d] h0 by simp
  then have "touches this w w1" by (rule touches_heap_eq)
  then show ?thesis unfolding w' using touches_set_curRetry touches_trans by blast
qed

lemma touches_BatchNode_run: "touches this w (snd (BatchNode_run f this w))"
proof -
  obtain r0 w0 where rp: "run_prep this w = (r0, w0)" by (cases "run_prep this w")
  then have h0: "heap w0 = heap w" using run_prep_world(1)[of this w] by simp
  show ?thesis
  proof (cases r0)
    case (Inl e)
    then show ?thesis using rp h0 by (simp add: BatchNode_run_def touches_heap_eq)
  next
    case p: (Inr p)
    show ?thesis
    proof (cases "BatchNode_exec f this p w0")
      case None
      then show ?thesis using rp p h0 by (simp add: BatchNode_run_def touches_heap_eq)
    next
      case (Some rw)
      obtain r w1 where rw: "rw = (r, w1)" by (cases rw)
      have "touches this w0 w1" using touches_BatchNode_exec Some rw by blast
      then have w1: "touches this w w1" using h0 by (simp add: touches_def)
      show ?thesis
      proof (cases r)
        case (Inl e)
        then show ?thesis using rp p Some rw w1 by (simp add: BatchNode_run_def)
      next
        case (Inr v)
        have "touches this w1 (snd (run_post this p v w1))" by (simp add: touches_heap_eq)
        then have "touches this w (snd (run_post this p v w1))" using w1 touches_trans by blast
        then show ?thesis using rp p Inr Some rw by (simp add: BatchNode_run_def)
      qed
    qed
  qed
qed


lemma setParams_frame: "touches cn w (emit ev (setParams cn p w))"
  by (simp add: touches_def setParams_def update_node_def)

lemma length_heap_setParams [simp]: "length (heap (setParams cn p w)) = length (heap w)"
  by (simp add: setParams_def update_node_def)

lemma extends_length: "extends n0 w w' \<Longrightarrow> n0 \<le> length (heap w) \<Longrightarrow> n0 \<le> length (heap w')"
  by (simp add: extends_def)

text \<open>\<open>Flow._run\<close>, the same for the three flow classes.\<close>

lemma run_node_flow:
  assumes "is_flow (cls (heap w ! this))"
  shows "run_node f this w =
     (case run_prep this w of
        (Inl e, w0) \<Rightarrow> (Raise e, w0)
      | (Inr pr, w0) \<Rightarrow>
          (case startNode (heap w0 ! this) of
             None \<Rightarrow> (Raise (TypeError ''Cannot convert undefined or null to object''), w0)
           | Some s \<Rightarrow>
               if s < length (heap w0) then
                 (case orch_loop f (spread (params (heap w0 ! this))) s (fst (clone s w0)) (snd (clone s w0)) of
                    (Return r, w1) \<Rightarrow> run_post this pr r w1
                  | (Raise e, w1) \<Rightarrow> (Raise e, w1)
                  | (Timeout, w1) \<Rightarrow> (Timeout, w1))
               else (Raise (TypeError ''curr.setParams is not a function''), w0)))"
  using assms by (cases "cls (heap w ! this)") (simp_all add: run_node.simps is_flow_def)

lemma run_node_other:
  assumes "\<not> is_flow (cls (heap w ! this))"
  shows "run_node f this w =
     (case cls (heap w ! this) of
        NodeC \<Rightarrow> Node_run this w
      | BatchNodeC \<Rightarrow> BatchNode_run f this w
      | _ \<Rightarrow> (Raise (Error ''Use runAsync.''), w))"
  using assms by (cases "cls (heap w ! this)") (simp_all add: run_node.simps is_flow_def)

lemma run_frame:
  "n0 \<le> length (heap w) \<Longrightarrow> n0 \<le> this \<or> is_flow (cls (heap w ! this))
     \<Longrightarrow> extends n0 w (snd (run_node f this w))"
  "n0 \<le> length (heap w) \<Longrightarrow> n0 \<le> cn \<Longrightarrow> extends n0 w (snd (orch_loop f p origin cn w))"
proof (induction f this w and f p origin cn w rule: run_node_orch_loop.induct)
  case (1 f this w)
  show ?case
  proof (cases "is_flow (cls (heap w ! this))")
    case False
    with "1.prems" have ge: "n0 \<le> this" by simp
    show ?thesis
      unfolding run_node_other[OF False]
      using touches_extends[OF touches_Node_run ge] touches_extends[OF touches_BatchNode_run ge]
      by (simp split: cls.splits)
  next
    case True
    obtain r0 w0 where rp: "run_prep this w = (r0, w0)" by (cases "run_prep this w")
    then have h0: "heap w0 = heap w" using run_prep_world(1)[of this w] by simp
    have e0: "extends n0 w w0" using h0 by (rule extends_heap_eq)
    show ?thesis
    proof (cases r0)
      case (Inl e)
      then show ?thesis unfolding run_node_flow[OF True] using rp e0 by simp
    next
      case pr: (Inr pr)
      show ?thesis
      proof (cases "startNode (heap w0 ! this)")
        case None
        then show ?thesis unfolding run_node_flow[OF True] using rp pr e0 by simp
      next
        case (Some s)
        show ?thesis
        proof (cases "s < length (heap w0)")
          case False
          then show ?thesis unfolding run_node_flow[OF True] using rp pr Some e0 by simp
        next
          case lt: True
          let ?o = "orch_loop f (spread (params (heap w0 ! this))) s (fst (clone s w0)) (snd (clone s w0))"
          have len0: "n0 \<le> length (heap w0)" using "1.prems"(1) h0 by simp
          have "extends n0 (snd (clone s w0)) (snd ?o)"
            using True "1.IH"[OF _ rp[symmetric] pr Some lt] len0
            by (auto simp: is_flow_def)
          then have o: "extends n0 w (snd ?o)"
            using extends_clone[OF len0] e0 extends_trans by blast
          obtain r w1 where ro: "?o = (r, w1)" by (cases ?o)
          have "extends n0 w1 (snd (run_post this pr x w1))" for x
            by (simp add: extends_heap_eq)
          then have "extends n0 w (snd (run_post this pr x w1))" for x
            using o ro extends_trans by fastforce
          then show ?thesis unfolding run_node_flow[OF True] using rp pr Some lt o ro
            by (auto split: outcome.splits)
        qed
      qed
    qed
  qed
next
  case (2 p origin cn w)
  show ?case by simp
next
  case (3 f p origin cn w)
  let ?w0 = "emit (Lifecycle origin) (setParams cn p w)"
  have w0: "extends n0 w ?w0"
    using touches_extends[OF setParams_frame "3.prems"(2)] .
  have "extends n0 ?w0 (snd (run_node f cn ?w0))"
    using "3.IH"(1) "3.prems" by simp
  then have r: "extends n0 w (snd (run_node f cn ?w0))"
    using w0 extends_trans by blast
  obtain x w1 where rn: "run_node f cn ?w0 = (x, w1)" by (cases "run_node f cn ?w0")
  with r have w1: "extends n0 w w1" by simp
  have len: "n0 \<le> length (heap w1)" using extends_length[OF w1 "3.prems"(1)] .
  show ?case
  proof (cases x)
    case (Return lastAction)
    show ?thesis
    proof (cases "getNextNode (heap w1 ! cn) lastAction")
      case (Inl e)
      then show ?thesis using rn Return w1 by simp
    next
      case (Inr b)
      show ?thesis
      proof (cases b)
        case Absent
        then show ?thesis using rn Return Inr w1 by simp
      next
        case (Inherited k)
        then show ?thesis using rn Return Inr w1 by simp
      next
        case (NodeAt nxt)
        show ?thesis
        proof (cases "nxt < length (heap w1)")
          case False
          then show ?thesis using rn Return Inr NodeAt w1 by simp
        next
          case True
          have "extends n0 (snd (clone nxt w1)) (snd (orch_loop f p nxt (fst (clone nxt w1)) (snd (clone nxt w1))))"
            using "3.IH"(2)[OF rn[symmetric] Return Inr NodeAt True] len by simp
          then have "extends n0 w (snd (orch_loop f p nxt (fst (clone nxt w1)) (snd (clone nxt w1))))"
            using w1 extends_clone[OF len] extends_trans by blast
          then show ?thesis using rn Return Inr NodeAt True by simp
        qed
      qed
    qed
  next
    case (Raise e)
    then show ?thesis using rn w1 by simp
  next
    case Timeout
    then show ?thesis using rn w1 by simp
  qed
qed

text \<open>
  C9. A flow run works on clones: every lifecycle runs on a freshly allocated copy of
  the registered node, and \<open>setParams\<close> and the retry counter write to that copy. So
  after a run of a flow object (whatever its outcome, and for any fuel) every object
  that was registered before the run is unchanged; in particular its \<open>params\<close> field
  and its successor map are what they were. (The stages of the model have no access
  to node objects.)
\<close>

theorem registered_nodes_unchanged:
  assumes "is_flow (cls (heap w ! this))" and "a < length (heap w)"
  shows "params (heap (snd (run f this w)) ! a) = params (heap w ! a)
       \<and> successors (heap (snd (run f this w)) ! a) = successors (heap w ! a)
       \<and> heap (snd (run f this w)) ! a = heap w ! a"
  using run_frame(1)[of "length (heap w)" w this f] assms
  by (simp add: run_def extends_def)


text \<open>
  The property key under which the traversal looks a label up:
  \<open>action || "default"\<close>, converted to a string.
\<close>

definition label_key :: "jsval \<Rightarrow> error + string" where
  "label_key l = toString (js_or l (Str ''default''))"

lemma getNextNode_key:
  "label_key l = Inr k \<Longrightarrow>
     getNextNode nd l =
       Inr (case lookup (successors nd) k of
              Some nxt \<Rightarrow> NodeAt nxt
            | None \<Rightarrow> if inherited k then Inherited k else Absent)"
  by (simp add: getNextNode_def label_key_def split: option.splits)

text \<open>
  \<open>arrives f p origin cn w l k w'\<close>: the traversal that stands at the clone \<open>cn\<close> in
  world \<open>w\<close> follows, hop by hop, the successor entry registered under the key of the
  label each lifecycle returns, and comes to a node whose lifecycle returns the label
  \<open>l\<close>, with key \<open>k\<close>, in world \<open>w'\<close>, where the successor map of that node has no
  entry under \<open>k\<close>.
\<close>

inductive arrives :: "nat \<Rightarrow> jsval \<Rightarrow> addr \<Rightarrow> addr \<Rightarrow> world \<Rightarrow> jsval \<Rightarrow> string \<Rightarrow> world \<Rightarrow> bool" where
  here: "run_node f cn (emit (Lifecycle origin) (setParams cn p w)) = (Return l, w1)
         \<Longrightarrow> label_key l = Inr k
         \<Longrightarrow> lookup (successors (heap w1 ! cn)) k = None
         \<Longrightarrow> arrives (Suc f) p origin cn w l k w1"
| hop: "run_node f cn (emit (Lifecycle origin) (setParams cn p w)) = (Return l0, w1)
         \<Longrightarrow> label_key l0 = Inr k0
         \<Longrightarrow> lookup (successors (heap w1 ! cn)) k0 = Some nxt
         \<Longrightarrow> nxt < length (heap w1)
         \<Longrightarrow> arrives f p nxt (fst (clone nxt w1)) (snd (clone nxt w1)) l k w'
         \<Longrightarrow> arrives (Suc f) p origin cn w l k w'"

lemma arrives_orch_loop:
  "arrives f p origin cn w l k w' \<Longrightarrow>
     orch_loop f p origin cn w =
       (if inherited k then (Raise (TypeError ''curr.setParams is not a function''), w')
        else (Return l, w'))"
  by (induction rule: arrives.induct) (simp_all add: getNextNode_key)

lemma arrives_extends:
  assumes "arrives f p origin cn w l k w'" and "n0 \<le> length (heap w)" and "n0 \<le> cn"
  shows "extends n0 w w'"
  using run_frame(2)[OF assms(2,3), of f p origin] arrives_orch_loop[OF assms(1)]
  by (simp split: if_splits)

text \<open>
  Fuel only bounds how long a run is followed: a run that has returned or raised with
  some fuel gives the same outcome and the same world with any larger fuel.
\<close>

lemma drain_more_fuel: "drain f n sw = Some r \<Longrightarrow> drain (Suc f) n sw = Some r"
proof (induction f arbitrary: sw)
  case 0
  obtain s w where sw: "sw = (s, w)" by (cases sw)
  from 0 show ?case unfolding sw
    by (subst drain.simps, subst (asm) drain.simps) (auto split: list.splits prod.splits)
next
  case (Suc f)
  obtain s w where sw: "sw = (s, w)" by (cases sw)
  show ?case
  proof (cases "micro s")
    case (Cons m rest)
    obtain idx item k where m: "m = (idx, item, k)" by (cases m)
    let ?next = "place idx item (resume n item k (cur s) w) (s\<lparr>micro := rest\<rparr>)"
    have "drain f n ?next = Some r"
      using Suc.prems Cons m unfolding sw by (subst (asm) drain.simps) simp
    then have "drain (Suc f) n ?next = Some r" by (rule Suc.IH)
    then show ?thesis unfolding sw using Cons m by (subst drain.simps) simp
  next
    case Nil
    show ?thesis
    proof (cases "timers s")
      case tn: Nil
      then show ?thesis using Suc.prems Nil unfolding sw
        by (subst drain.simps, subst (asm) drain.simps) simp
    next
      case (Cons m rest)
      obtain idx item where m: "m = (idx, item)" by (cases m)
      let ?next = "place idx item (task_loop n item (cur s + 1) w) (s\<lparr>timers := rest\<rparr>)"
      have "drain f n ?next = Some r"
        using Suc.prems Nil Cons m unfolding sw by (subst (asm) drain.simps) simp
      then have "drain (Suc f) n ?next = Some r" by (rule Suc.IH)
      then show ?thesis unfolding sw using Nil Cons m by (subst drain.simps) simp
    qed
  qed
qed

lemma BatchNode_exec_more_fuel:
  assumes "BatchNode_exec f this p w = Some r"
  shows "BatchNode_exec (Suc f) this p w = Some r"
proof (cases "items_of p")
  case (Inl e)
  then show ?thesis using assms by (simp add: BatchNode_exec_def)
next
  case (Inr xs)
  let ?start = "start_all (heap w ! this) 0 xs
                  (\<lparr>cur = curRetry (heap w ! this), micro = [], timers = [], settled = []\<rparr>, w)"
  from assms Inr obtain d where d: "drain f (heap w ! this) ?start = Some d"
    by (auto simp: BatchNode_exec_def split: option.splits)
  then have "drain (Suc f) (heap w ! this) ?start = Some d" by (rule drain_more_fuel)
  then show ?thesis using d assms Inr by (simp add: BatchNode_exec_def)
qed

lemma BatchNode_run_more_fuel:
  assumes "fst (BatchNode_run f this w) \<noteq> Timeout"
  shows "BatchNode_run (Suc f) this w = BatchNode_run f this w"
proof -
  obtain r0 w0 where rp: "run_prep this w = (r0, w0)" by (cases "run_prep this w")
  show ?thesis
  proof (cases r0)
    case (Inl e)
    then show ?thesis using rp by (simp add: BatchNode_run_def)
  next
    case p: (Inr p)
    from assms rp p obtain r where b: "BatchNode_exec f this p w0 = Some r"
      by (auto simp: BatchNode_run_def split: option.splits)
    then have "BatchNode_exec (Suc f) this p w0 = Some r" by (rule BatchNode_exec_more_fuel)
    then show ?thesis using b rp p by (simp add: BatchNode_run_def)
  qed
qed

lemma more_fuel:
  "fst (run_node f this w) \<noteq> Timeout \<Longrightarrow> run_node (Suc f) this w = run_node f this w"
  "fst (orch_loop f p origin cn w) \<noteq> Timeout
     \<Longrightarrow> orch_loop (Suc f) p origin cn w = orch_loop f p origin cn w"
proof (induction f this w and f p origin cn w rule: run_node_orch_loop.induct)
  case (1 f this w)
  show ?case
  proof (cases "is_flow (cls (heap w ! this))")
    case False
    then show ?thesis using "1.prems" BatchNode_run_more_fuel[of f this w]
      by (cases "cls (heap w ! this)") (simp_all add: run_node_other)
  next
    case True
    obtain r0 w0 where rp: "run_prep this w = (r0, w0)" by (cases "run_prep this w")
    show ?thesis
    proof (cases r0)
      case (Inl e)
      then show ?thesis using rp by (simp add: run_node_flow[OF True])
    next
      case pr: (Inr pr)
      show ?thesis
      proof (cases "startNode (heap w0 ! this)")
        case None
        then show ?thesis using rp pr by (simp add: run_node_flow[OF True])
      next
        case (Some s)
        show ?thesis
        proof (cases "s < length (heap w0)")
          case False
          then show ?thesis using rp pr Some by (simp add: run_node_flow[OF True])
        next
          case lt: True
          let ?o = "\<lambda>g. orch_loop g (spread (params (heap w0 ! this))) s (fst (clone s w0)) (snd (clone s w0))"
          have nt: "fst (?o f) \<noteq> Timeout"
            using "1.prems" rp pr Some lt
            by (auto simp: run_node_flow[OF True] split: prod.splits outcome.splits)
          have "?o (Suc f) = ?o f"
            using True "1.IH"[OF _ rp[symmetric] pr Some lt] nt by (auto simp: is_flow_def)
          then show ?thesis using rp pr Some lt by (simp add: run_node_flow[OF True])
        qed
      qed
    qed
  qed
next
  case (2 p origin cn w)
  then show ?case by simp
next
  case (3 f p origin cn w)
  let ?w0 = "emit (Lifecycle origin) (setParams cn p w)"
  obtain x w1 where rn: "run_node f cn ?w0 = (x, w1)" by (cases "run_node f cn ?w0")
  have x: "x \<noteq> Timeout" using "3.prems" rn by auto
  then have rn': "run_node (Suc f) cn ?w0 = (x, w1)" using "3.IH"(1) rn by simp
  show ?case
  proof (cases x)
    case (Return lastAction)
    show ?thesis
    proof (cases "getNextNode (heap w1 ! cn) lastAction")
      case (Inl e)
      then show ?thesis using rn rn' Return by simp
    next
      case (Inr b)
      show ?thesis
      proof (cases b)
        case Absent
        then show ?thesis using rn rn' Return Inr by simp
      next
        case (Inherited k)
        then show ?thesis using rn rn' Return Inr by simp
      next
        case (NodeAt nxt)
        show ?thesis
        proof (cases "nxt < length (heap w1)")
          case False
          then show ?thesis using rn rn' Return Inr NodeAt by simp
        next
          case True
          let ?o = "\<lambda>g. orch_loop g p nxt (fst (clone nxt w1)) (snd (clone nxt w1))"
          have "orch_loop (Suc f) p origin cn w = ?o f" using rn Return Inr NodeAt True by simp
          then have "fst (?o f) \<noteq> Timeout" using "3.prems" by simp
          then have "?o (Suc f) = ?o f"
            using "3.IH"(2)[OF rn[symmetric] Return Inr NodeAt True] by simp
          then show ?thesis using rn rn' Return Inr NodeAt True by simp
        qed
      qed
    qed
  next
    case (Raise e)
    then show ?thesis using rn rn' by simp
  next
    case Timeout
    then show ?thesis using x by simp
  qed
qed

lemma run_more_fuel: "fst (run f this w) \<noteq> Timeout \<Longrightarrow> run (f + n) this w = run f this w"
proof (induction n)
  case 0
  show ?case by simp
next
  case (Suc n)
  then have "run (f + n) this w = run f this w" by simp
  moreover from this Suc.prems have "fst (run_node (f + n) this w) \<noteq> Timeout"
    by (simp add: run_def)
  ultimately show ?case using more_fuel(1)[of "f + n" this w] by (simp add: run_def)
qed

text \<open>
  C3. The claim is that a label with no matching successor in the successor map ends
  the flow without an error, the flow's run returning that label. Take a flow (with
  \<open>Flow\<close>'s own post stage, which hands \<open>_orch\<close>'s last label through) whose traversal
  comes to a node that returns a label \<open>l\<close> for whose key \<open>k\<close> the successor map has
  no entry. With the fuel that was enough to come there, and with any larger fuel, the
  run returns \<open>l\<close> and raises nothing, as claimed, unless \<open>k\<close> names a member of
  \<open>Object.prototype\<close> (\<open>constructor\<close>, \<open>toString\<close>, \<open>valueOf\<close>, ...): the read
  \<open>curr.successors[k]\<close> then finds that member, the loop goes on with a copy of it,
  and the run is rejected with a \<open>TypeError\<close>. The dead-end warning of \<open>getNextNode\<close>
  itself speaks of a label \<open>not found in\<close> the own keys of the map.
\<close>

theorem label_without_successor:
  assumes "is_flow (cls (heap w ! this))" and "this < length (heap w)"
    and "prep (heap w ! this) (ticks w) (shared w) = (Inr pr, sh, t)"
    and "post (heap w ! this) = (\<lambda>t sh p r. (Inr r, sh, t))"
    and "startNode (heap w ! this) = Some s" and "s < length (heap w)"
    and "arrives f (spread (params (heap w ! this))) s
           (fst (clone s (w\<lparr>shared := sh, ticks := t\<rparr>)))
           (snd (clone s (w\<lparr>shared := sh, ticks := t\<rparr>))) l k w'"
  shows "run (f + n) this w =
           (if inherited k then (Raise (TypeError ''curr.setParams is not a function''), w')
            else (Return l, w'))"
proof -
  define w0 where "w0 = w\<lparr>shared := sh, ticks := t\<rparr>"
  have rp: "run_prep this w = (Inr pr, w0)"
    by (simp add: run_prep_def assms(3) w0_def)
  have h0: "heap w0 = heap w" by (simp add: w0_def)
  have arr: "arrives f (spread (params (heap w0 ! this))) s (fst (clone s w0)) (snd (clone s w0)) l k w'"
    using assms(7) by (simp add: w0_def)
  have o: "orch_loop f (spread (params (heap w0 ! this))) s (fst (clone s w0)) (snd (clone s w0)) =
             (if inherited k then (Raise (TypeError ''curr.setParams is not a function''), w')
              else (Return l, w'))"
    using arr by (rule arrives_orch_loop)
  have "extends (length (heap w0)) (snd (clone s w0)) w'"
    using arrives_extends[OF arr, of "length (heap w0)"] by simp
  then have "heap w' ! this = heap (snd (clone s w0)) ! this"
    using assms(2) h0 by (simp add: extends_def)
  then have same: "heap w' ! this = heap w ! this"
    using assms(2) h0 by (simp add: clone_def alloc_def nth_append)
  have "run_post this pr l w' = (Return l, w')"
    by (simp add: run_post_def same assms(4))
  then have r: "run f this w =
           (if inherited k then (Raise (TypeError ''curr.setParams is not a function''), w')
            else (Return l, w'))"
    using assms(5,6) o rp h0 by (simp add: run_def run_node_flow[OF assms(1)])
  then have "fst (run f this w) \<noteq> Timeout" by simp
  then have "run (f + n) this w = run f this w" by (rule run_more_fuel)
  with r show ?thesis by simp
qed

text \<open>
  C10. Successor resolution reads the map under the key of \<open>action || "default"\<close>.
  So every falsy label (\<open>undefined\<close>, \<open>null\<close>, \<open>false\<close>, \<open>0\<close>, \<open>""\<close>: these are all the
  falsy values of the model) is looked up under \<open>"default"\<close>, and the loop goes on with
  the entry found there or, without one, ends with the label. A truthy label is looked
  up under its own string (a string as it is, a number by its decimal digits). The
  traversal ends at a node exactly when \<open>getNextNode\<close> finds nothing, and that is:
  for a truthy label, when there is no entry under its key (and the key names no
  inherited member); for a falsy label, when there is no \<open>"default"\<close> entry.
  Otherwise the loop goes on with the successor found, or throws. The labels are
  those whose key the model gives (a number from \<open>10\<^sup>2\<^sup>1\<close> on is not one).
\<close>

theorem falsy_label_default:
  assumes "run_node f cn (emit (Lifecycle origin) (setParams cn p w)) = (Return label, w1)"
    and "\<forall>x. label_key label \<noteq> Inl (OutsideModel x)"
  defines "entries \<equiv> successors (heap w1 ! cn)"
  shows "(\<not> truthy label \<longleftrightarrow> label \<in> {Undefined, Null, Bool False, Num 0, Str []})
       \<and> (\<not> truthy label \<longrightarrow>
            getNextNode (heap w1 ! cn) label =
              Inr (case lookup entries ''default'' of Some nxt \<Rightarrow> NodeAt nxt | None \<Rightarrow> Absent)
            \<and> orch_loop (Suc f) p origin cn w =
              (case lookup entries ''default'' of
                 None \<Rightarrow> (Return label, w1)
               | Some nxt \<Rightarrow>
                   if nxt < length (heap w1)
                   then orch_loop f p nxt (fst (clone nxt w1)) (snd (clone nxt w1))
                   else (Raise (TypeError ''curr.setParams is not a function''), w1)))
       \<and> (\<forall>s. label = Str s \<and> s \<noteq> [] \<longrightarrow>
            getNextNode (heap w1 ! cn) label =
              Inr (case lookup entries s of
                     Some nxt \<Rightarrow> NodeAt nxt
                   | None \<Rightarrow> if inherited s then Inherited s else Absent))
       \<and> (\<forall>i. label = Num i \<and> i \<noteq> 0 \<and> - 1000000000000000000000 < i \<and> i < 1000000000000000000000 \<longrightarrow>
            getNextNode (heap w1 ! cn) label =
              Inr (case lookup entries (string_of_int i) of Some nxt \<Rightarrow> NodeAt nxt | None \<Rightarrow> Absent))
       \<and> (getNextNode (heap w1 ! cn) label = Inr Absent \<longleftrightarrow>
            (if truthy label
             then \<exists>k. toString label = Inr k \<and> lookup entries k = None \<and> \<not> inherited k
             else lookup entries ''default'' = None))
       \<and> (getNextNode (heap w1 ! cn) label = Inr Absent \<longrightarrow>
            orch_loop (Suc f) p origin cn w = (Return label, w1))
       \<and> (getNextNode (heap w1 ! cn) label \<noteq> Inr Absent \<longrightarrow>
            (\<exists>e. (\<forall>x. e \<noteq> OutsideModel x) \<and> orch_loop (Suc f) p origin cn w = (Raise e, w1))
            \<or> (\<exists>nxt. getNextNode (heap w1 ! cn) label = Inr (NodeAt nxt) \<and> nxt < length (heap w1)
                  \<and> orch_loop (Suc f) p origin cn w =
                      orch_loop f p nxt (fst (clone nxt w1)) (snd (clone nxt w1))))"
proof -
  have d: "\<not> inherited ''default''"
    by (simp add: inherited_def object_prototype_keys_def)
  have t: "\<not> truthy label \<longleftrightarrow> label \<in> {Undefined, Null, Bool False, Num 0, Str []}"
    by (cases label) auto
  have falsy: "getNextNode (heap w1 ! cn) label =
              Inr (case lookup entries ''default'' of Some nxt \<Rightarrow> NodeAt nxt | None \<Rightarrow> Absent)"
    if "\<not> truthy label"
    using that d by (simp add: getNextNode_def js_or_def entries_def split: option.splits)
  have step: "orch_loop (Suc f) p origin cn w =
              (case lookup entries ''default'' of
                 None \<Rightarrow> (Return label, w1)
               | Some nxt \<Rightarrow>
                   if nxt < length (heap w1)
                   then orch_loop f p nxt (fst (clone nxt w1)) (snd (clone nxt w1))
                   else (Raise (TypeError ''curr.setParams is not a function''), w1))"
    if "\<not> truthy label"
    using falsy[OF that] assms(1) by (simp split: option.splits)
  have str: "getNextNode (heap w1 ! cn) label =
              Inr (case lookup entries s of
                     Some nxt \<Rightarrow> NodeAt nxt
                   | None \<Rightarrow> if inherited s then Inherited s else Absent)"
    if "label = Str s" "s \<noteq> []" for s
    using that by (simp add: getNextNode_def js_or_def entries_def split: option.splits)
  have digits: "\<not> inherited (string_of_nat m)" for m
  proof -
    have "string_of_nat m \<noteq> [] \<and> of_char (hd (string_of_nat m)) < (58::nat)"
    proof (induction m rule: string_of_nat.induct)
      case (1 m)
      show ?case
      proof (cases "m < 10")
        case True
        then show ?thesis by (subst string_of_nat.simps, subst string_of_nat.simps) simp
      next
        case False
        then show ?thesis using 1
          by (subst string_of_nat.simps, subst (2) string_of_nat.simps) (simp add: hd_append)
      qed
    qed
    then show ?thesis
      by (cases "string_of_nat m") (auto simp: inherited_def object_prototype_keys_def)
  qed
  have num: "getNextNode (heap w1 ! cn) label =
              Inr (case lookup entries (string_of_int i) of Some nxt \<Rightarrow> NodeAt nxt | None \<Rightarrow> Absent)"
    if "label = Num i" "i \<noteq> 0" "- 1000000000000000000000 < i" "i < 1000000000000000000000" for i
  proof -
    have "\<not> inherited (string_of_int i)"
      using digits by (auto simp: string_of_int_def inherited_def object_prototype_keys_def)
    then show ?thesis
      using that by (simp add: getNextNode_def js_or_def entries_def split: option.splits)
  qed
  have absent: "getNextNode (heap w1 ! cn) label = Inr Absent \<longleftrightarrow>
            (if truthy label
             then \<exists>k. toString label = Inr k \<and> lookup entries k = None \<and> \<not> inherited k
             else lookup entries ''default'' = None)"
    using d by (auto simp: getNextNode_def js_or_def entries_def split: sum.splits option.splits if_splits)
  have ends: "orch_loop (Suc f) p origin cn w = (Return label, w1)"
    if "getNextNode (heap w1 ! cn) label = Inr Absent"
    using that assms(1) by simp
  have goes_on: "(\<exists>e. (\<forall>x. e \<noteq> OutsideModel x) \<and> orch_loop (Suc f) p origin cn w = (Raise e, w1))
            \<or> (\<exists>nxt. getNextNode (heap w1 ! cn) label = Inr (NodeAt nxt) \<and> nxt < length (heap w1)
                  \<and> orch_loop (Suc f) p origin cn w =
                      orch_loop f p nxt (fst (clone nxt w1)) (snd (clone nxt w1)))"
    if "getNextNode (heap w1 ! cn) label \<noteq> Inr Absent"
  proof (cases "getNextNode (heap w1 ! cn) label")
    case (Inl e)
    then have "\<forall>x. e \<noteq> OutsideModel x"
      using assms(2) by (auto simp: getNextNode_def label_key_def split: sum.splits option.splits)
    then show ?thesis using Inl assms(1) by simp
  next
    case (Inr b)
    then show ?thesis using that assms(1) by (cases b) auto
  qed
  show ?thesis
    using t falsy step str num absent ends goes_on by blast
qed


subsection \<open>Worked runs of the engine\<close>

text \<open>
  The traversal as a computation: \<open>walk\<close> follows the successor entries and returns
  the dead end it comes to (label, key and world), if it comes to one within the fuel.
\<close>

fun walk :: "nat \<Rightarrow> jsval \<Rightarrow> addr \<Rightarrow> addr \<Rightarrow> world \<Rightarrow> (jsval \<times> string \<times> world) option" where
  "walk 0 p origin cn w = None"
| "walk (Suc f) p origin cn w =
     (case run_node f cn (emit (Lifecycle origin) (setParams cn p w)) of
        (Return l, w1) \<Rightarrow>
          (case label_key l of
             Inl e \<Rightarrow> None
           | Inr k \<Rightarrow>
               (case lookup (successors (heap w1 ! cn)) k of
                  None \<Rightarrow> Some (l, k, w1)
                | Some nxt \<Rightarrow>
                    if nxt < length (heap w1) then walk f p nxt (fst (clone nxt w1)) (snd (clone nxt w1))
                    else None))
      | (other, w1) \<Rightarrow> None)"

lemma walk_arrives: "walk f p origin cn w = Some (l, k, w') \<Longrightarrow> arrives f p origin cn w l k w'"
proof (induction f arbitrary: origin cn w)
  case 0
  then show ?case by simp
next
  case (Suc f)
  let ?w0 = "emit (Lifecycle origin) (setParams cn p w)"
  obtain x w1 where rn: "run_node f cn ?w0 = (x, w1)" by (cases "run_node f cn ?w0")
  from Suc.prems rn obtain l0 where x: "x = Return l0" by (cases x) simp_all
  from Suc.prems rn x obtain k0 where k0: "label_key l0 = Inr k0"
    by (cases "label_key l0") simp_all
  show ?case
  proof (cases "lookup (successors (heap w1 ! cn)) k0")
    case None
    then have "l = l0" "k = k0" "w' = w1" using Suc.prems rn x k0 by simp_all
    then show ?thesis using rn x k0 None by (auto intro: arrives.here)
  next
    case (Some nxt)
    then have lt: "nxt < length (heap w1)"
      and rest: "walk f p nxt (fst (clone nxt w1)) (snd (clone nxt w1)) = Some (l, k, w')"
      using Suc.prems rn x k0 by (simp_all split: if_splits)
    from rest have "arrives f p nxt (fst (clone nxt w1)) (snd (clone nxt w1)) l k w'"
      by (rule Suc.IH)
    then show ?thesis using rn x k0 Some lt by (auto intro: arrives.hop)
  qed
qed

text \<open>
  A two-node flow: \<open>first\<close> returns \<open>"go"\<close>, \<open>second\<close> returns \<open>"done"\<close> and has no
  successor. In the second flow the last node returns \<open>"constructor"\<close> instead, and has
  a successor, under another label.
\<close>

definition two_step_heap :: "node list" where
  "two_step_heap =
     [(new_Flow FlowC (Some 1))\<lparr>params := Obj [(''model'', Str ''m'')]\<rparr>,
      (new_Node NodeC 1 0)\<lparr>successors := [(''go'', 2)],
                             post := (\<lambda>t sh p r. (Inr (Str ''go''), sh, t))\<rparr>,
      (new_Node NodeC 1 0)\<lparr>post := (\<lambda>t sh p r. (Inr (Str ''done''), sh, t))\<rparr>]"

definition two_step_world :: world where
  "two_step_world = \<lparr>heap = two_step_heap, shared = Obj [], trace = [], ticks = 0\<rparr>"

definition constructor_heap :: "node list" where
  "constructor_heap =
     [(new_Flow FlowC (Some 1))\<lparr>params := Obj [(''model'', Str ''m'')]\<rparr>,
      (new_Node NodeC 1 0)\<lparr>successors := [(''go'', 2)],
                             post := (\<lambda>t sh p r. (Inr (Str ''go''), sh, t))\<rparr>,
      (new_Node NodeC 1 0)\<lparr>successors := [(''again'', 1)],
                             post := (\<lambda>t sh p r. (Inr (Str ''constructor''), sh, t))\<rparr>]"

definition constructor_world :: world where
  "constructor_world = \<lparr>heap = constructor_heap, shared = Obj [], trace = [], ticks = 0\<rparr>"

lemmas engine_eval =
  run_def run_node.simps Node_run_def run_prep_def Node_exec_def Node_exec_from.simps call_exec_def
  call_fallback_def delay_def set_curRetry_def update_node_def emit_def setParams_def
  run_post_def getNextNode_def label_key_def lookup_def js_or_def clone_def alloc_def
  new_Node_def new_Flow_def is_flow_def inherited_def object_prototype_keys_def

theorem label_without_successor_witness:
  "fst (run 2 0 two_step_world) = Return (Str ''done'')
   \<and> fst (run 2 0 constructor_world) = Raise (TypeError ''curr.setParams is not a function'')"
proof -
  have a: "fst (run 2 0 two_step_world) = Return (Str ''done'')"
  proof -
    let ?w = "two_step_world"
    let ?wa = "?w\<lparr>shared := Obj [], ticks := 0\<rparr>"
    have "\<exists>w'. walk 2 (spread (params (heap ?w ! 0))) 1 (fst (clone 1 ?wa)) (snd (clone 1 ?wa))
                  = Some (Str ''done'', ''done'', w')"
      by (simp add: eval_nat_numeral two_step_world_def two_step_heap_def engine_eval)
    then obtain w' where
      "arrives 2 (spread (params (heap ?w ! 0))) 1 (fst (clone 1 ?wa)) (snd (clone 1 ?wa))
         (Str ''done'') ''done'' w'"
      using walk_arrives by blast
    then have "run (2 + 0) 0 ?w =
           (if inherited ''done'' then (Raise (TypeError ''curr.setParams is not a function''), w')
            else (Return (Str ''done''), w'))"
    proof (rule label_without_successor[where pr = Undefined and s = 1, rotated -1])
      show "is_flow (cls (heap ?w ! 0))"
        by (simp add: two_step_world_def two_step_heap_def new_Flow_def new_Node_def is_flow_def)
      show "0 < length (heap ?w)" "1 < length (heap ?w)"
        by (simp_all add: two_step_world_def two_step_heap_def)
      show "prep (heap ?w ! 0) (ticks ?w) (shared ?w) = (Inr Undefined, Obj [], 0)"
        by (simp add: two_step_world_def two_step_heap_def new_Flow_def new_Node_def)
      show "post (heap ?w ! 0) = (\<lambda>t sh p r. (Inr r, sh, t))"
        by (simp add: two_step_world_def two_step_heap_def new_Flow_def new_Node_def)
      show "startNode (heap ?w ! 0) = Some 1"
        by (simp add: two_step_world_def two_step_heap_def new_Flow_def new_Node_def)
    qed
    then show ?thesis by (simp add: inherited_def object_prototype_keys_def)
  qed
  have b: "fst (run 2 0 constructor_world) = Raise (TypeError ''curr.setParams is not a function'')"
  proof -
    let ?w = "constructor_world"
    let ?wa = "?w\<lparr>shared := Obj [], ticks := 0\<rparr>"
    have "\<exists>w'. walk 2 (spread (params (heap ?w ! 0))) 1 (fst (clone 1 ?wa)) (snd (clone 1 ?wa))
                  = Some (Str ''constructor'', ''constructor'', w')"
      by (simp add: eval_nat_numeral constructor_world_def constructor_heap_def engine_eval)
    then obtain w' where
      "arrives 2 (spread (params (heap ?w ! 0))) 1 (fst (clone 1 ?wa)) (snd (clone 1 ?wa))
         (Str ''constructor'') ''constructor'' w'"
      using walk_arrives by blast
    then have "run (2 + 0) 0 ?w =
           (if inherited ''constructor''
            then (Raise (TypeError ''curr.setParams is not a function''), w')
            else (Return (Str ''constructor''), w'))"
    proof (rule label_without_successor[where pr = Undefined and s = 1, rotated -1])
      show "is_flow (cls (heap ?w ! 0))"
        by (simp add: constructor_world_def constructor_heap_def new_Flow_def new_Node_def is_flow_def)
      show "0 < length (heap ?w)" "1 < length (heap ?w)"
        by (simp_all add: constructor_world_def constructor_heap_def)
      show "prep (heap ?w ! 0) (ticks ?w) (shared ?w) = (Inr Undefined, Obj [], 0)"
        by (simp add: constructor_world_def constructor_heap_def new_Flow_def new_Node_def)
      show "post (heap ?w ! 0) = (\<lambda>t sh p r. (Inr r, sh, t))"
        by (simp add: constructor_world_def constructor_heap_def new_Flow_def new_Node_def)
      show "startNode (heap ?w ! 0) = Some 1"
        by (simp add: constructor_world_def constructor_heap_def new_Flow_def new_Node_def)
    qed
    then show ?thesis by (simp add: inherited_def object_prototype_keys_def)
  qed
  from a b show ?thesis by simp
qed

theorem registered_nodes_unchanged_witness:
  "params (heap (snd (run 2 0 two_step_world)) ! 1) = Obj []
   \<and> successors (heap (snd (run 2 0 two_step_world)) ! 1) = [(''go'', 2)]"
  using registered_nodes_unchanged[of two_step_world 0 1 2]
  by (simp add: two_step_world_def two_step_heap_def new_Flow_def new_Node_def is_flow_def)

text \<open>
  A node that returns the label \<open>0\<close> and has successors for \<open>"0"\<close> and for
  \<open>"default"\<close>; the latter returns \<open>5\<close> and has successors for \<open>"5"\<close> and for
  \<open>"default"\<close>; the node under \<open>"5"\<close> returns \<open>false\<close> and has a successor for
  \<open>"false"\<close> only.
\<close>

definition falsy_heap :: "node list" where
  "falsy_heap =
     [new_Flow FlowC (Some 1),
      (new_Node NodeC 1 0)\<lparr>successors := [(''0'', 2), (''default'', 3)],
                             post := (\<lambda>t sh p r. (Inr (Num 0), sh, t))\<rparr>,
      (new_Node NodeC 1 0)\<lparr>post := (\<lambda>t sh p r. (Inr (Str ''wrong''), sh, t))\<rparr>,
      (new_Node NodeC 1 0)\<lparr>successors := [(''5'', 4), (''default'', 2)],
                             post := (\<lambda>t sh p r. (Inr (Num 5), sh, t))\<rparr>,
      (new_Node NodeC 1 0)\<lparr>successors := [(''false'', 2)],
                             post := (\<lambda>t sh p r. (Inr (Bool False), sh, t))\<rparr>]"

definition falsy_world :: world where
  "falsy_world = \<lparr>heap = falsy_heap, shared = Obj [], trace = [], ticks = 0\<rparr>"

theorem falsy_label_default_witness:
  "orch_loop 3 (Obj []) 1 5 (snd (clone 1 falsy_world)) =
     orch_loop 2 (Obj []) 3 6
       (snd (clone 3 (snd (run_node 2 5 (emit (Lifecycle 1) (setParams 5 (Obj []) (snd (clone 1 falsy_world))))))))
   \<and> fst (orch_loop 3 (Obj []) 1 5 (snd (clone 1 falsy_world))) = Return (Bool False)"
proof -
  let ?w = "snd (clone 1 falsy_world)"
  let ?r = "run_node 2 5 (emit (Lifecycle 1) (setParams 5 (Obj []) ?w))"
  have r: "?r = (Return (Num 0), snd ?r)"
    by (simp add: falsy_world_def falsy_heap_def engine_eval prod_eq_iff)
  have h: "successors (heap (snd ?r) ! 5) = [(''0'', 2), (''default'', 3)]" "length (heap (snd ?r)) = 6"
    by (simp_all add: falsy_world_def falsy_heap_def engine_eval)
  have "orch_loop (Suc 2) (Obj []) 1 5 ?w =
          (case lookup (successors (heap (snd ?r) ! 5)) ''default'' of
             None \<Rightarrow> (Return (Num 0), snd ?r)
           | Some nxt \<Rightarrow>
               if nxt < length (heap (snd ?r))
               then orch_loop 2 (Obj []) nxt (fst (clone nxt (snd ?r))) (snd (clone nxt (snd ?r)))
               else (Raise (TypeError ''curr.setParams is not a function''), snd ?r))"
    using falsy_label_default[OF r, THEN conjunct2, THEN conjunct1]
    by (simp add: label_key_def js_or_def)
  then have step: "orch_loop 3 (Obj []) 1 5 ?w = orch_loop 2 (Obj []) 3 6 (snd (clone 3 (snd ?r)))"
    using h by (simp add: eval_nat_numeral lookup_def)
  have "fst (orch_loop (Suc (Suc (Suc 0))) (Obj []) 1 5 ?w) = Return (Bool False)"
    by (simp add: falsy_world_def falsy_heap_def engine_eval string_of_int_def string_of_nat.simps)
  then have "fst (orch_loop 3 (Obj []) 1 5 ?w) = Return (Bool False)"
    by (simp add: numeral_3_eq_3)
  with step show ?thesis by simp
qed



subsection \<open>A batch with a transient failure\<close>

text \<open>
  For comparison, the sibling \<open>AsyncBatchNode._exec\<close>, which awaits each element:
  \<open>for (const item of (items || [])) results.push(await super._exec(item)); return results;\<close>
\<close>

fun sequential_exec :: "addr \<Rightarrow> jsval list \<Rightarrow> jsval list \<Rightarrow> world \<Rightarrow> (error + jsval) \<times> world" where
  "sequential_exec this [] results w = (Inr (Arr results), w)"
| "sequential_exec this (item # items) results w =
     (case Node_exec this item w of
        (Inl e, w1) \<Rightarrow> (Inl e, w1)
      | (Inr r, w1) \<Rightarrow> sequential_exec this items (results @ [r]) w1)"

text \<open>
  A batch node with \<open>maxRetries = 2\<close> and no wait, whose execute stage is an \<open>async\<close>
  function that fails on its first call only (a transient failure), on two elements.
\<close>

definition flaky_batch :: node where
  "flaky_batch = (new_Node BatchNodeC 2 0)
     \<lparr>exec := (\<lambda>t item. if t = 0 then Inl (Error ''transient'') else Inr item),
      execIsAsync := True\<rparr>"

definition flaky_world :: world where
  "flaky_world = \<lparr>heap = [flaky_batch], shared = Obj [], trace = [], ticks = 0\<rparr>"

lemmas batch_eval =
  BatchNode_exec_def drain.simps task_loop.simps task_catch.simps call_exec_def call_fallback_def
  delay_def emit_def promise_all_def value_of_def set_curRetry_def update_node_def new_Node_def

text \<open>
  C2. The claim is that the per-element execute stages of a batch node run one at a
  time: element \<open>i+1\<close> is not started before element \<open>i\<close>, retries included, has
  completed. \<open>BatchNode._exec\<close> starts all elements in the \<open>map\<close> and only then
  yields, so here the second element's execute stage is called before the retry of
  the first, and the second element settles first. The sibling that awaits each
  element runs both attempts of the first element before the second starts.
\<close>

theorem batch_starts_next_before_retry:
  "map_option (\<lambda>(r, w). (r, trace w)) (BatchNode_exec 3 0 (Arr [Str ''a1'', Str ''a2'']) flaky_world) =
     Some (Inr (Arr [Str ''a1'', Str ''a2'']),
           [ExecCall (Str ''a1''), ExecCall (Str ''a2''), ExecCall (Str ''a1''), Settled 1, Settled 0])
   \<and> (\<lambda>(r, w). (r, trace w)) (sequential_exec 0 [Str ''a1'', Str ''a2''] [] flaky_world) =
     (Inr (Arr [Str ''a1'', Str ''a2'']),
      [ExecCall (Str ''a1''), ExecCall (Str ''a1''), ExecCall (Str ''a2'')])"
  by (simp add: eval_nat_numeral flaky_world_def flaky_batch_def batch_eval
      Node_exec_def Node_exec_from.simps)

section \<open>The compiler\<close>

subsection \<open>Reading and writing properties\<close>

text \<open>
  \<open>o[k]\<close> for one of the fixed keys the compiler reads from a graph description or a
  stage result (\<open>id\<close>, \<open>kind\<close>, \<open>post\<close>, \<open>save\<close>, \<open>0\<close>, ...; none of them names a member
  of a built-in prototype), on a value that is neither \<open>undefined\<close> nor \<open>null\<close>: an
  own property of an object, an index or the length of an array or a string;
  \<open>undefined\<close> otherwise. \<open>opt\<close> is the optional chain \<open>o?.k\<close> (the same read,
  \<open>undefined\<close> on a nullish \<open>o\<close>); \<open>dot\<close> is the plain \<open>o.k\<close>, which throws on a
  nullish \<open>o\<close>.
\<close>

fun opt :: "jsval \<Rightarrow> string \<Rightarrow> jsval" where
  "opt (Obj kvs) k = (case map_of kvs k of Some v \<Rightarrow> v | None \<Rightarrow> Undefined)"
| "opt (Arr xs) k =
     (if k = ''length'' then Num (int (length xs))
      else case map_of (indexed 0 xs) k of Some v \<Rightarrow> v | None \<Rightarrow> Undefined)"
| "opt (Str s) k =
     (if k = ''length'' then Num (int (length s))
      else case map_of (indexed 0 (map (\<lambda>c. Str [c]) s)) k of Some v \<Rightarrow> v | None \<Rightarrow> Undefined)"
| "opt v k = Undefined"

definition nullish :: "jsval \<Rightarrow> bool" where
  "nullish v \<longleftrightarrow> v = Undefined \<or> v = Null"

lemma nullish_simps [simp]:
  "nullish Undefined" "nullish Null" "\<not> nullish (Bool b)" "\<not> nullish (Num i)"
  "\<not> nullish (Str s)" "\<not> nullish (Arr xs)" "\<not> nullish (Obj kvs)" "\<not> nullish (Fn src)"
  by (simp_all add: nullish_def)

definition dot :: "jsval \<Rightarrow> string \<Rightarrow> error + jsval" where
  "dot v k = (if nullish v then Inl (TypeError ''Cannot read properties of undefined or null'')
              else Inr (opt v k))"

text \<open>
  \<open>o[k]\<close> for a key that comes from the data (a segment of a path, the name of the
  batch input). On a plain object the read finds an own property, or else a member of
  \<open>Object.prototype\<close>, which is not a value of this model. On an array or a string it
  finds an element or the length; what else it finds depends on the members of
  \<open>Array.prototype\<close> or \<open>String.prototype\<close>, as it does for every key on a number,
  a boolean or a function.
\<close>

fun get :: "jsval \<Rightarrow> string \<Rightarrow> error + jsval" where
  "get (Obj kvs) k =
     (case map_of kvs k of
        Some v \<Rightarrow> Inr v
      | None \<Rightarrow> if inherited k then Inl (OutsideModel ''a member of Object.prototype as a value'')
                else Inr Undefined)"
| "get (Arr xs) k =
     (if k = ''length'' then Inr (Num (int (length xs)))
      else case map_of (indexed 0 xs) k of
             Some v \<Rightarrow> Inr v
           | None \<Rightarrow> Inl (OutsideModel ''a property of an array other than an element or the length''))"
| "get (Str s) k =
     (if k = ''length'' then Inr (Num (int (length s)))
      else case map_of (indexed 0 (map (\<lambda>c. Str [c]) s)) k of
             Some v \<Rightarrow> Inr v
           | None \<Rightarrow> Inl (OutsideModel ''a property of a string other than a character or the length''))"
| "get Undefined k = Inl (TypeError ''Cannot read properties of undefined'')"
| "get Null k = Inl (TypeError ''Cannot read properties of null'')"
| "get v k = Inl (OutsideModel ''a property of a number, a boolean or a function'')"

text \<open>\<open>typeof v === 'object'\<close> (true of \<open>null\<close>).\<close>

fun typeof_object :: "jsval \<Rightarrow> bool" where
  "typeof_object Null = True"
| "typeof_object (Arr xs) = True"
| "typeof_object (Obj kvs) = True"
| "typeof_object v = False"

text \<open>
  \<open>o[k] = v\<close> in strict mode (class bodies are strict): on an object it sets an own
  property; on an array it replaces an existing element; on a primitive or a nullish
  value it throws. The key \<open>__proto__\<close>, unless it is an own property (as after
  \<open>JSON.parse\<close>), reaches the inherited setter: that ignores a primitive \<open>v\<close> and
  otherwise changes the prototype of \<open>o\<close>.
\<close>

fun primitive :: "jsval \<Rightarrow> bool" where
  "primitive (Arr xs) = False"
| "primitive (Obj kvs) = False"
| "primitive (Fn src) = False"
| "primitive v = True"

fun put :: "jsval \<Rightarrow> string \<Rightarrow> jsval \<Rightarrow> error + jsval" where
  "put (Obj kvs) k v =
     (if k = ''__proto__'' \<and> map_of kvs k = None then
        (if primitive v \<and> v \<noteq> Null then Inr (Obj kvs)
         else Inl (OutsideModel ''a changed prototype''))
      else Inr (Obj (assign kvs k v)))"
| "put (Arr xs) k v =
     (case map_of (indexed 0 [0..<length xs]) k of
        Some i \<Rightarrow> Inr (Arr (xs[i := v]))
      | None \<Rightarrow> Inl (OutsideModel ''a named property or a new index on an array''))"
| "put (Fn src) k v = Inl (OutsideModel ''a property on a function'')"
| "put Undefined k v = Inl (TypeError ''Cannot set properties of undefined'')"
| "put Null k v = Inl (TypeError ''Cannot set properties of null'')"
| "put w k v = Inl (TypeError ''Cannot create property on a primitive'')"

text \<open>\<open>s.split('.')\<close>: the pieces between the dots; one (empty) piece for the empty string.\<close>

fun split_dot :: "string \<Rightarrow> string list" where
  "split_dot [] = [[]]"
| "split_dot (c # cs) =
     (if c = CHR ''.'' then [] # split_dot cs
      else (case split_dot cs of p # ps \<Rightarrow> (c # p) # ps | [] \<Rightarrow> [[c]]))"

text \<open>
  \<open>getNestedProperty(obj, path)\<close>:
  \<open>path.split('.').reduce((current, key) => current && current[key] !== undefined ? current[key] : undefined, obj)\<close>
\<close>

fun descend :: "jsval \<Rightarrow> string list \<Rightarrow> error + jsval" where
  "descend current [] = Inr current"
| "descend current (key # keys) =
     (if truthy current then
        (case get current key of
           Inl e \<Rightarrow> Inl e
         | Inr v \<Rightarrow> descend v keys)
      else descend Undefined keys)"

definition getNestedProperty :: "jsval \<Rightarrow> string \<Rightarrow> error + jsval" where
  "getNestedProperty obj path = descend obj (split_dot path)"

text \<open>
  \<open>setNestedProperty(obj, path, value)\<close> walks \<open>keys[0 .. n-2]\<close>, replacing by \<open>{}\<close>
  whatever is absent or not of type object, and assigns at the last key. The source
  mutates the objects on the path in place; on values without sharing that is the
  rebuilt value returned here. \<open>key in current\<close> throws on a primitive \<open>current\<close>. An
  inherited function under \<open>key\<close> is not of type object, so it is shadowed by a new
  \<open>{}\<close> like an absent key; the inherited \<open>__proto__\<close> is of type object, so the walk
  goes on inside \<open>Object.prototype\<close> and writes there.
\<close>

fun set_path :: "jsval \<Rightarrow> string list \<Rightarrow> jsval \<Rightarrow> error + jsval" where
  "set_path current [] v = put current ''undefined'' v"
| "set_path current [k] v = put current k v"
| "set_path (Obj kvs) (k # k' # ks) v =
     (if k = ''__proto__'' \<and> map_of kvs k = None
      then Inl (OutsideModel ''a write into Object.prototype'')
      else
        (case set_path (case map_of kvs k of
                          Some c \<Rightarrow> if typeof_object c then c else Obj []
                        | None \<Rightarrow> Obj []) (k' # ks) v of
           Inl e \<Rightarrow> Inl e
         | Inr c' \<Rightarrow> Inr (Obj (assign kvs k c'))))"
| "set_path (Arr xs) (k # k' # ks) v =
     (case map_of (indexed 0 [0..<length xs]) k of
        Some i \<Rightarrow>
          (case set_path (if typeof_object (xs ! i) then xs ! i else Obj []) (k' # ks) v of
             Inl e \<Rightarrow> Inl e
           | Inr c' \<Rightarrow> Inr (Arr (xs[i := c'])))
      | None \<Rightarrow> Inl (OutsideModel ''a named property or a new index on an array''))"
| "set_path (Fn src) (k # k' # ks) v = Inl (OutsideModel ''a property on a function'')"
| "set_path w (k # k' # ks) v = Inl (TypeError ''Cannot use in operator on a primitive'')"

text \<open>\<open>path.split('.')\<close> needs a string (or an object with a \<open>split\<close> method).\<close>

definition setNestedProperty :: "jsval \<Rightarrow> jsval \<Rightarrow> jsval \<Rightarrow> error + jsval" where
  "setNestedProperty obj path v =
     (case path of
        Str p \<Rightarrow> set_path obj (split_dot p) v
      | Obj kvs \<Rightarrow>
          (case map_of kvs ''split'' of
             Some (Fn src) \<Rightarrow> Inl (OutsideModel ''a call of a split method'')
           | _ \<Rightarrow> Inl (TypeError ''path.split is not a function''))
      | _ \<Rightarrow> Inl (TypeError ''path.split is not a function''))"

subsection \<open>Templates and conditions\<close>

text \<open>
  What the compiler takes from its JavaScript host rather than from this repository.
  \<open>new_Function t src ctx result\<close> is the call
  \<open>new Function('ctx', 'result', `return (${src})`)(ctx, result)\<close> made at clock \<open>t\<close>:
  the evaluated code receives the two objects themselves, so the host returns, with
  the value (or what was thrown), the two objects as the call left them; and as the
  code may read anything (the time, a random number, a global), what the host returns
  may differ from one call to the next. \<open>JSON_stringify\<close> is \<open>JSON.stringify\<close> on arrays
  and objects (their serialisation depends on key order and on \<open>toJSON\<close> members; on
  the other values it is \<open>stringify\<close> below), and \<open>fetch t url options\<close> is the global \<open>fetch\<close> at clock \<open>t\<close> with the response
  read: its status, the outcome of \<open>response.json()\<close> and its headers as an object.
\<close>

record host =
  new_Function :: "nat \<Rightarrow> string \<Rightarrow> jsval \<Rightarrow> jsval \<Rightarrow> (error + jsval) \<times> jsval \<times> jsval"
  JSON_stringify :: "jsval \<Rightarrow> error + jsval"
  fetch :: "nat \<Rightarrow> jsval \<Rightarrow> jsval \<Rightarrow> error + (jsval \<times> (error + jsval) \<times> jsval)"

text \<open>
  The state in which templates and conditions are evaluated: the two objects of
  \<open>context = { ctx, result }\<close>, and the clock.
\<close>

type_synonym scope = "jsval \<times> jsval \<times> nat"

text \<open>
  The pattern \<open>/\{\{\s*([^}]+)\s*\}\}/g\<close>. A match at the head of \<open>s\<close> is \<open>{{\<close>, then
  a non-empty run of characters other than \<open>}\<close> up to the first \<open>}\<close>, then \<open>}}\<close>.
  The leading \<open>\s*\<close> is greedy, so the group starts after the leading whitespace
  (giving one character back when the run is all whitespace); the group is greedy
  too, so it keeps trailing whitespace, and the second \<open>\s*\<close> matches nothing.
  Strings are ASCII: \<open>\s\<close> is space, tab, line feed, vertical tab, form feed,
  carriage return.
\<close>

definition is_space :: "char \<Rightarrow> bool" where
  "is_space c \<longleftrightarrow> c \<in> {CHR '' '', CHR 0x09, CHR 0x0A, CHR 0x0B, CHR 0x0C, CHR 0x0D}"

definition capture :: "string \<Rightarrow> string" where
  "capture body = (if dropWhile is_space body = [] then [last body] else dropWhile is_space body)"

fun match_at :: "string \<Rightarrow> (string \<times> string \<times> string) option" where
  "match_at (a # b # t) =
     (if a = CHR ''{'' \<and> b = CHR ''{'' \<and> takeWhile (\<lambda>c. c \<noteq> CHR ''}'') t \<noteq> []
         \<and> take 2 (dropWhile (\<lambda>c. c \<noteq> CHR ''}'') t) = ''}}''
      then Some (''{{'' @ takeWhile (\<lambda>c. c \<noteq> CHR ''}'') t @ ''}}'',
                 capture (takeWhile (\<lambda>c. c \<noteq> CHR ''}'') t),
                 drop 2 (dropWhile (\<lambda>c. c \<noteq> CHR ''}'') t))
      else None)"
| "match_at s = None"

lemma match_at_shorter: "match_at s = Some (m, e, rest) \<Longrightarrow> length rest < length s"
proof (cases s rule: match_at.cases)
  case (1 a b t)
  assume "match_at s = Some (m, e, rest)"
  with 1 have "rest = drop 2 (dropWhile (\<lambda>c. c \<noteq> CHR ''}'') t)"
    by (simp split: if_splits)
  moreover have "length (dropWhile (\<lambda>c. c \<noteq> CHR ''}'') t) \<le> length t"
    by (rule length_dropWhile_le)
  ultimately show ?thesis using 1 by simp
qed simp_all

text \<open>
  \<open>template.replace(pattern, callback)\<close>: for every match, left to right, the callback
  is called with (match, group) and what it returns is converted to a string, which
  replaces the match. That conversion happens in \<open>replace\<close>, outside the callback: if
  it throws, \<open>replace\<close> throws.
\<close>

function replace_all ::
  "(string \<Rightarrow> string \<Rightarrow> scope \<Rightarrow> (error + jsval) \<times> scope) \<Rightarrow> string \<Rightarrow> scope
     \<Rightarrow> (error + string) \<times> scope" where
  "replace_all cb [] sc = (Inr [], sc)"
| "replace_all cb (c # cs) sc =
     (case match_at (c # cs) of
        Some (m, e, rest) \<Rightarrow>
          (case cb m e sc of
             (Inl err, sc1) \<Rightarrow> (Inl err, sc1)
           | (Inr v, sc1) \<Rightarrow>
               (case toString v of
                  Inl err \<Rightarrow> (Inl err, sc1)
                | Inr s \<Rightarrow>
                    (case replace_all cb rest sc1 of
                       (Inl err, sc2) \<Rightarrow> (Inl err, sc2)
                     | (Inr out, sc2) \<Rightarrow> (Inr (s @ out), sc2))))
      | None \<Rightarrow>
          (case replace_all cb cs sc of
             (Inl err, sc1) \<Rightarrow> (Inl err, sc1)
           | (Inr out, sc1) \<Rightarrow> (Inr (c # out), sc1)))"
  by pat_completeness auto
termination
  by (relation "measure (\<lambda>(cb, s, sc). length s)") (auto dest: match_at_shorter)

text \<open>
  \<open>evaluateExpression(expr, context)\<close> with \<open>context = {ctx, result}\<close>: a dotted path
  is resolved in the evaluation context; a name of the evaluation context (own or
  inherited: the test is \<open>expr in evalContext\<close>) is read; anything else is evaluated
  as JavaScript, and if that throws the expression text itself is returned. The
  function throws nothing: an error here marks a value outside the model.
\<close>

definition evalContext :: "jsval \<Rightarrow> jsval \<Rightarrow> (string \<times> jsval) list" where
  "evalContext ctx result =
     [(''ctx'', js_or ctx (Obj [])),
      (''result'', js_or result (Obj [])),
      (''json'', Fn ''(obj) => JSON.stringify(obj)''),
      (''stringify'', Fn ''(obj) => JSON.stringify(obj)''),
      (''parse'', Fn ''(str) => JSON.parse(str)'')]"

definition evaluateExpression :: "host \<Rightarrow> string \<Rightarrow> scope \<Rightarrow> (error + jsval) \<times> scope" where
  "evaluateExpression h expr sc =
     (case sc of (ctx, result, t) \<Rightarrow>
        if CHR ''.'' \<in> set expr then (getNestedProperty (Obj (evalContext ctx result)) expr, sc)
        else case map_of (evalContext ctx result) expr of
               Some v \<Rightarrow> (Inr v, sc)
             | None \<Rightarrow>
                 if inherited expr
                 then (Inl (OutsideModel ''a member of Object.prototype as a value''), sc)
                 else (case new_Function h t expr ctx result of
                         (Inl e, ctx', result') \<Rightarrow> (Inr (Str expr), (ctx', result', Suc t))
                       | (Inr v, ctx', result') \<Rightarrow> (Inr v, (ctx', result', Suc t))))"

text \<open>
  \<open>JSON.stringify(v)\<close>. A string is quoted (\<open>QuoteJSONString\<close>: the quote and the
  backslash are escaped by a backslash, the control characters are written as a
  backslash and one of \<open>b\<close>, \<open>t\<close>, \<open>n\<close>, \<open>f\<close>, \<open>r\<close>, or as a backslash and \<open>u00\<close> with
  two hexadecimal digits); \<open>undefined\<close> and a function give \<open>undefined\<close>; \<open>null\<close>, a
  boolean and a number give their text; arrays and objects are the host's.
\<close>

definition hex_digit :: "nat \<Rightarrow> char" where
  "hex_digit n = (if n < 10 then char_of (48 + n) else char_of (87 + n))"

definition quote_char :: "char \<Rightarrow> string" where
  "quote_char c =
     (if c = CHR 0x22 \<or> c = CHR 0x5C then [CHR 0x5C, c]
      else if c = CHR 0x08 then [CHR 0x5C, CHR ''b'']
      else if c = CHR 0x09 then [CHR 0x5C, CHR ''t'']
      else if c = CHR 0x0A then [CHR 0x5C, CHR ''n'']
      else if c = CHR 0x0C then [CHR 0x5C, CHR ''f'']
      else if c = CHR 0x0D then [CHR 0x5C, CHR ''r'']
      else if of_char c < (32 :: nat)
        then [CHR 0x5C, CHR ''u'', CHR ''0'', CHR ''0'',
              hex_digit (of_char c div 16), hex_digit (of_char c mod 16)]
      else [c])"

definition quoteJSONString :: "string \<Rightarrow> string" where
  "quoteJSONString s = CHR 0x22 # concat (map quote_char s) @ [CHR 0x22]"

definition stringify :: "host \<Rightarrow> jsval \<Rightarrow> error + jsval" where
  "stringify h v =
     (case v of
        Str s \<Rightarrow> Inr (Str (quoteJSONString s))
      | Undefined \<Rightarrow> Inr Undefined
      | Fn f \<Rightarrow> Inr Undefined
      | Arr xs \<Rightarrow> JSON_stringify h v
      | Obj kvs \<Rightarrow> JSON_stringify h v
      | _ \<Rightarrow> (case toString v of Inl e \<Rightarrow> Inl e | Inr s \<Rightarrow> Inr (Str s)))"

text \<open>
  The callback of \<open>interpolate\<close>: \<open>json(...)\<close> stringifies the inner expression
  (\<open>expr.slice(5, -1)\<close>); whatever is thrown inside is caught and the match returned.
\<close>

definition starts_with :: "string \<Rightarrow> string \<Rightarrow> bool" where
  "starts_with p s \<longleftrightarrow> take (length p) s = p"

definition placeholder :: "host \<Rightarrow> string \<Rightarrow> string \<Rightarrow> scope \<Rightarrow> (error + jsval) \<times> scope" where
  "placeholder h m expr sc =
     (if starts_with ''json('' expr then
        (case evaluateExpression h (butlast (drop 5 expr)) sc of
           (Inl e, sc1) \<Rightarrow> (Inl e, sc1)
         | (Inr v, sc1) \<Rightarrow>
             (case stringify h v of
                Inl e \<Rightarrow> (Inr (Str m), sc1)
              | Inr s \<Rightarrow> (Inr s, sc1)))
      else evaluateExpression h expr sc)"

text \<open>\<open>interpolate(template, context)\<close>: a template that is not a string is returned as it is.\<close>

definition interpolate :: "host \<Rightarrow> jsval \<Rightarrow> scope \<Rightarrow> (error + jsval) \<times> scope" where
  "interpolate h template sc =
     (case template of
        Str s \<Rightarrow>
          (case replace_all (placeholder h) s sc of
             (Inl e, sc1) \<Rightarrow> (Inl e, sc1)
           | (Inr out, sc1) \<Rightarrow> (Inr (Str out), sc1))
      | v \<Rightarrow> (Inr v, sc))"

text \<open>
  \<open>evaluateCondition(condition, context)\<close>: the condition is spliced into the function
  source by a template literal, inside the \<open>try\<close>; whatever \<open>new Function\<close> or the
  evaluated code throws gives \<open>false\<close>, and what the condition did to the two objects
  before it threw stays done. The \<open>catch\<close> block logs
  \<open>`Condition evaluation failed: ${condition}`\<close> first: when it was the conversion of
  the condition that threw, this second conversion throws again, outside any \<open>try\<close>.
\<close>

definition evaluateCondition :: "host \<Rightarrow> jsval \<Rightarrow> scope \<Rightarrow> (error + jsval) \<times> scope" where
  "evaluateCondition h condition sc =
     (case sc of (ctx, result, t) \<Rightarrow>
        (case toString condition of
           Inl e \<Rightarrow> (Inl e, sc)
         | Inr src \<Rightarrow>
             (case new_Function h t src ctx result of
                (Inl e, ctx', result') \<Rightarrow> (Inr (Bool False), (ctx', result', Suc t))
              | (Inr v, ctx', result') \<Rightarrow> (Inr v, (ctx', result', Suc t)))))"

subsection \<open>Node factories\<close>

text \<open>
  The compiler's environment: \<open>env.llm.call\<close> (when an LLM client was supplied; it
  reads the clock, as its answers may vary) and \<open>env.globals\<close>.
\<close>

record env =
  llm :: "(nat \<Rightarrow> jsval \<Rightarrow> error + jsval) option"
  globals :: jsval

text \<open>\<open>for (const x of v)\<close>: arrays and strings are iterable.\<close>

fun iterate :: "jsval \<Rightarrow> error + jsval list" where
  "iterate (Arr xs) = Inr xs"
| "iterate (Str s) = Inr (map (\<lambda>c. Str [c]) s)"
| "iterate v = Inl (TypeError ''not iterable'')"

text \<open>
  \<open>new Node(nodeConfig.retry?.max || 1, nodeConfig.retry?.wait || 0)\<close>; the engine
  compares and subtracts these, so they are numbers.
\<close>

definition retry_number :: "jsval \<Rightarrow> int \<Rightarrow> error + int" where
  "retry_number v d =
     (if \<not> truthy v then Inr d
      else case v of
             Num n \<Rightarrow> Inr n
           | _ \<Rightarrow> Inl (OutsideModel ''a retry policy that is not a number''))"

definition new_retrying :: "cls \<Rightarrow> jsval \<Rightarrow> error + node" where
  "new_retrying c nodeConfig =
     (case retry_number (opt (opt nodeConfig ''retry'') ''max'') 1 of
        Inl e \<Rightarrow> Inl e
      | Inr m \<Rightarrow>
          (case retry_number (opt (opt nodeConfig ''retry'') ''wait'') 0 of
             Inl e \<Rightarrow> Inl e
           | Inr wt \<Rightarrow> Inr (new_Node c m wt)))"

text \<open>
  The loop over \<open>nodeConfig.post.outputs.save\<close>:
  \<open>const value = this.interpolate(save.value, context); this.setNestedProperty(shared, save.path, value);\<close>
  where \<open>context = { ctx: shared, result: execRes }\<close> holds the shared context itself,
  so each entry sees what the entries before it saved. An entry that throws leaves the
  shared context as it was at that point. Values being trees, a save is seen through
  the shared context only: where the path leads into an object that \<open>result\<close> holds too
  (as after \<open>shared._lastResult = execRes\<close>), \<open>result\<close> keeps its value here.
\<close>

fun save_outputs :: "host \<Rightarrow> jsval list \<Rightarrow> scope \<Rightarrow> error option \<times> scope" where
  "save_outputs h [] sc = (None, sc)"
| "save_outputs h (save # saves) sc =
     (case dot save ''value'' of
        Inl e \<Rightarrow> (Some e, sc)
      | Inr template \<Rightarrow>
          (case interpolate h template sc of
             (Inl e, sc1) \<Rightarrow> (Some e, sc1)
           | (Inr v, ctx1, result1, t1) \<Rightarrow>
               (case setNestedProperty ctx1 (opt save ''path'') v of
                  Inl e \<Rightarrow> (Some e, ctx1, result1, t1)
                | Inr ctx2 \<Rightarrow> save_outputs h saves (ctx2, result1, t1))))"

definition post_saves :: "host \<Rightarrow> jsval \<Rightarrow> scope \<Rightarrow> error option \<times> scope" where
  "post_saves h nodeConfig sc =
     (if truthy (opt (opt (opt nodeConfig ''post'') ''outputs'') ''save'') then
        (case iterate (opt (opt (opt nodeConfig ''post'') ''outputs'') ''save'') of
           Inl e \<Rightarrow> (Some e, sc)
         | Inr saves \<Rightarrow> save_outputs h saves sc)
      else (None, sc))"

text \<open>\<open>return nodeConfig.post?.next || null;\<close>\<close>

definition next_label :: "jsval \<Rightarrow> jsval" where
  "next_label nodeConfig = js_or (opt (opt nodeConfig ''post'') ''next'') Null"

text \<open>The post stage of the data node: saves, then the label.\<close>

definition data_post ::
  "host \<Rightarrow> jsval \<Rightarrow> nat \<Rightarrow> jsval \<Rightarrow> jsval \<Rightarrow> jsval \<Rightarrow> (error + jsval) \<times> jsval \<times> nat" where
  "data_post h nodeConfig t sh prepRes execRes =
     (case post_saves h nodeConfig (sh, execRes, t) of
        (Some e, sh', result', t') \<Rightarrow> (Inl e, sh', t')
      | (None, sh', result', t') \<Rightarrow> (Inr (next_label nodeConfig), sh', t'))"

text \<open>The post stage of the other kinds: \<open>shared._lastResult = execRes\<close> first.\<close>

definition result_post ::
  "host \<Rightarrow> jsval \<Rightarrow> nat \<Rightarrow> jsval \<Rightarrow> jsval \<Rightarrow> jsval \<Rightarrow> (error + jsval) \<times> jsval \<times> nat" where
  "result_post h nodeConfig t sh prepRes execRes =
     (case put sh ''_lastResult'' execRes of
        Inl e \<Rightarrow> (Inl e, sh, t)
      | Inr sh1 \<Rightarrow> data_post h nodeConfig t sh1 prepRes execRes)"

text \<open>The prepare and execute stages of \<open>createLLMNode\<close> (and \<open>createAsyncNode\<close>).\<close>

definition llm_prep :: "env \<Rightarrow> host \<Rightarrow> jsval \<Rightarrow> nat \<Rightarrow> jsval \<Rightarrow> (error + jsval) \<times> jsval \<times> nat" where
  "llm_prep ev h nodeConfig t sh =
     (case dot sh ''_lastResult'' of
        Inl e \<Rightarrow> (Inl e, sh, t)
      | Inr lastResult \<Rightarrow>
          (case interpolate h (js_or (opt (opt nodeConfig ''exec'') ''prompt'') (Str []))
                  (sh, lastResult, t) of
             (Inl e, sh', result', t') \<Rightarrow> (Inl e, sh', t')
           | (Inr prompt, sh', result', t') \<Rightarrow>
               (Inr (Obj [(''prompt'', prompt),
                          (''model'',
                            js_or (opt (opt nodeConfig ''exec'') ''model'')
                              (js_or (opt (globals ev) ''model'') (Str ''gpt-4o-mini'')))]),
                sh', t')))"

definition llm_exec :: "env \<Rightarrow> nat \<Rightarrow> jsval \<Rightarrow> error + jsval" where
  "llm_exec ev t prepRes =
     (case llm ev of
        None \<Rightarrow> Inl (Error ''LLM environment not configured. Provide env.llm.call function.'')
      | Some call \<Rightarrow> call t (Obj [(''prompt'', opt prepRes ''prompt''), (''model'', opt prepRes ''model'')]))"

definition createLLMNode :: "env \<Rightarrow> host \<Rightarrow> jsval \<Rightarrow> error + node" where
  "createLLMNode ev h nodeConfig =
     (case new_retrying NodeC nodeConfig of
        Inl e \<Rightarrow> Inl e
      | Inr n \<Rightarrow> Inr (n\<lparr>prep := llm_prep ev h nodeConfig, exec := llm_exec ev, execIsAsync := True,
                         post := result_post h nodeConfig\<rparr>))"

definition createAsyncNode :: "env \<Rightarrow> host \<Rightarrow> jsval \<Rightarrow> error + node" where
  "createAsyncNode ev h nodeConfig =
     (case new_retrying AsyncNodeC nodeConfig of
        Inl e \<Rightarrow> Inl e
      | Inr n \<Rightarrow> Inr (n\<lparr>prep := llm_prep ev h nodeConfig, exec := llm_exec ev, execIsAsync := True,
                         post := result_post h nodeConfig\<rparr>))"

text \<open>\<open>createHTTPNode\<close>.\<close>

definition http_prep :: "host \<Rightarrow> jsval \<Rightarrow> nat \<Rightarrow> jsval \<Rightarrow> (error + jsval) \<times> jsval \<times> nat" where
  "http_prep h nodeConfig t sh =
     (case dot sh ''_lastResult'' of
        Inl e \<Rightarrow> (Inl e, sh, t)
      | Inr lastResult \<Rightarrow>
          (case interpolate h (js_or (opt (opt nodeConfig ''exec'') ''url'') (Str []))
                  (sh, lastResult, t) of
             (Inl e, sh', result', t') \<Rightarrow> (Inl e, sh', t')
           | (Inr url, sh', result', t') \<Rightarrow>
               (Inr (Obj [(''url'', url),
                          (''method'', js_or (opt (opt nodeConfig ''exec'') ''method'') (Str ''GET'')),
                          (''headers'', js_or (opt (opt nodeConfig ''exec'') ''headers'') (Obj [])),
                          (''body'', js_or (opt (opt nodeConfig ''exec'') ''body'') (Obj []))]),
                sh', t')))"

definition http_exec :: "host \<Rightarrow> nat \<Rightarrow> jsval \<Rightarrow> error + jsval" where
  "http_exec h t prepRes =
     (case (if opt prepRes ''method'' \<noteq> Str ''GET'' then stringify h (opt prepRes ''body'')
            else Inr Undefined) of
        Inl e \<Rightarrow> Inl e
      | Inr body \<Rightarrow>
          (case fetch h t (opt prepRes ''url'')
                  (Obj [(''method'', opt prepRes ''method''), (''headers'', opt prepRes ''headers''),
                        (''body'', body)]) of
             Inl e \<Rightarrow> Inl e
           | Inr (status, json, headers) \<Rightarrow>
               Inr (Obj [(''status'', status),
                         (''data'', case json of Inl e \<Rightarrow> Obj [] | Inr d \<Rightarrow> d),
                         (''headers'', headers)])))"

definition createHTTPNode :: "env \<Rightarrow> host \<Rightarrow> jsval \<Rightarrow> error + node" where
  "createHTTPNode ev h nodeConfig =
     (case new_retrying NodeC nodeConfig of
        Inl e \<Rightarrow> Inl e
      | Inr n \<Rightarrow> Inr (n\<lparr>prep := http_prep h nodeConfig, exec := http_exec h, execIsAsync := True,
                         post := result_post h nodeConfig\<rparr>))"

text \<open>
  \<open>createRouterNode\<close>: the post stage walks \<open>nodeConfig.exec?.cases || []\<close> in order and
  returns the label of the first case with
  \<open>!case_.when || this.evaluateCondition(case_.when, context)\<close>; \<open>null\<close> when none.
  The conditions run on the shared context itself, one after the other, so each sees
  what the ones before it did.
\<close>

fun route :: "host \<Rightarrow> jsval list \<Rightarrow> scope \<Rightarrow> (error + jsval) \<times> scope" where
  "route h [] sc = (Inr Null, sc)"
| "route h (case' # cases) sc =
     (case dot case' ''when'' of
        Inl e \<Rightarrow> (Inl e, sc)
      | Inr when \<Rightarrow>
          if \<not> truthy when then (Inr (opt case' ''label''), sc)
          else
            (case evaluateCondition h when sc of
               (Inl e, sc1) \<Rightarrow> (Inl e, sc1)
             | (Inr v, sc1) \<Rightarrow>
                 if truthy v then (Inr (opt case' ''label''), sc1)
                 else route h cases sc1))"

definition router_post ::
  "host \<Rightarrow> jsval \<Rightarrow> nat \<Rightarrow> jsval \<Rightarrow> jsval \<Rightarrow> jsval \<Rightarrow> (error + jsval) \<times> jsval \<times> nat" where
  "router_post h nodeConfig t sh prepRes execRes =
     (case dot sh ''_lastResult'' of
        Inl e \<Rightarrow> (Inl e, sh, t)
      | Inr lastResult \<Rightarrow>
          (case iterate (js_or (opt (opt nodeConfig ''exec'') ''cases'') (Arr [])) of
             Inl e \<Rightarrow> (Inl e, sh, t)
           | Inr cases \<Rightarrow>
               (case route h cases (sh, lastResult, t) of
                  (r, sh', result', t') \<Rightarrow> (r, sh', t'))))"

definition createRouterNode :: "env \<Rightarrow> host \<Rightarrow> jsval \<Rightarrow> error + node" where
  "createRouterNode ev h nodeConfig =
     Inr ((new_Node NodeC 1 0)\<lparr>prep := (\<lambda>t sh. (Inr (Obj [(''shared'', sh)]), sh, t)),
                                exec := (\<lambda>t prepRes. Inr prepRes),
                                post := router_post h nodeConfig\<rparr>)"

text \<open>\<open>createDataNode\<close>: the execute stage returns \<open>nodeConfig.exec || {}\<close>.\<close>

definition createDataNode :: "env \<Rightarrow> host \<Rightarrow> jsval \<Rightarrow> error + node" where
  "createDataNode ev h nodeConfig =
     Inr ((new_Node NodeC 1 0)\<lparr>prep := (\<lambda>t sh. (Inr (Obj [(''shared'', sh)]), sh, t)),
                                exec := (\<lambda>t prepRes. Inr (js_or (opt nodeConfig ''exec'') (Obj []))),
                                post := data_post h nodeConfig\<rparr>)"

text \<open>
  \<open>createBatchNode\<close> and \<open>createParallelNode\<close>: the prepare stage is
  \<open>shared[nodeConfig.prep?.inputs?.[0]?.path || 'items'] || []\<close>, the execute stage
  is \<open>async (items) => items\<close>.
\<close>

definition batch_prep :: "jsval \<Rightarrow> nat \<Rightarrow> jsval \<Rightarrow> (error + jsval) \<times> jsval \<times> nat" where
  "batch_prep nodeConfig t sh =
     (if nullish sh then (Inl (TypeError ''Cannot read properties of undefined or null''), sh, t)
      else
        (case toString (js_or (opt (opt (opt (opt nodeConfig ''prep'') ''inputs'') ''0'') ''path'')
                              (Str ''items'')) of
           Inl e \<Rightarrow> (Inl e, sh, t)
         | Inr k \<Rightarrow>
             (case get sh k of
                Inl e \<Rightarrow> (Inl e, sh, t)
              | Inr items \<Rightarrow> (Inr (js_or items (Arr [])), sh, t))))"

definition createBatchNode :: "env \<Rightarrow> host \<Rightarrow> jsval \<Rightarrow> error + node" where
  "createBatchNode ev h nodeConfig =
     (case new_retrying BatchNodeC nodeConfig of
        Inl e \<Rightarrow> Inl e
      | Inr n \<Rightarrow> Inr (n\<lparr>prep := batch_prep nodeConfig, exec := (\<lambda>t items. Inr items),
                         execIsAsync := True, post := result_post h nodeConfig\<rparr>))"

definition createParallelNode :: "env \<Rightarrow> host \<Rightarrow> jsval \<Rightarrow> error + node" where
  "createParallelNode ev h nodeConfig =
     (case new_retrying AsyncParallelBatchNodeC nodeConfig of
        Inl e \<Rightarrow> Inl e
      | Inr n \<Rightarrow> Inr (n\<lparr>prep := batch_prep nodeConfig, exec := (\<lambda>t items. Inr items),
                         execIsAsync := True, post := result_post h nodeConfig\<rparr>))"

text \<open>
  The registry of the constructor: the own entries of \<open>this.registry\<close>, kind to
  factory.
\<close>

definition factories :: "env \<Rightarrow> host \<Rightarrow> (string \<times> (jsval \<Rightarrow> error + node)) list" where
  "factories ev h =
     [(''llm'', createLLMNode ev h),
      (''http'', createHTTPNode ev h),
      (''router'', createRouterNode ev h),
      (''data'', createDataNode ev h),
      (''batch'', createBatchNode ev h),
      (''async'', createAsyncNode ev h),
      (''parallel'', createParallelNode ev h)]"

definition registry :: "env \<Rightarrow> host \<Rightarrow> string \<Rightarrow> (jsval \<Rightarrow> error + node) option" where
  "registry ev h kind = map_of (factories ev h) kind"

text \<open>
  \<open>this.registry[kind]\<close> is a read of a plain object, so for a kind that names a
  member of \<open>Object.prototype\<close> the factory is that member, and it is called as
  \<open>factory(nodeConfig)\<close>, with no \<open>this\<close>. \<open>constructor\<close> is \<open>Object\<close>, which returns
  the node spec itself, and \<open>toString\<close> returns the string \<open>[object Undefined]\<close>: the
  node map then holds something that is not a node object, which is outside the
  model. \<open>__proto__\<close> is not a function; the other members throw, for want of a
  \<open>this\<close>, two of them after converting their argument to a property key.
\<close>

definition inherited_factory :: "string \<Rightarrow> jsval \<Rightarrow> error" where
  "inherited_factory kind nodeConfig =
     (if kind = ''constructor'' \<or> kind = ''toString''
      then OutsideModel ''a node map entry that is not a node object''
      else if kind = ''__proto__'' then TypeError ''factory is not a function''
      else if kind = ''hasOwnProperty'' \<or> kind = ''propertyIsEnumerable''
      then (case toString nodeConfig of
              Inl e \<Rightarrow> e
            | Inr s \<Rightarrow> TypeError ''Cannot convert undefined or null to object'')
      else TypeError ''Cannot convert undefined or null to object'')"

subsection \<open>\<open>compile\<close>\<close>

text \<open>
  Keys of a \<open>Map\<close> or \<open>Set\<close>, and \<open>Array.prototype.includes\<close>, compare by
  SameValueZero (and \<open>===\<close> agrees with it without NaN): primitives by value, objects
  by identity. A graph description is data, so two objects in it are never the same
  object.
\<close>

definition same_value :: "jsval \<Rightarrow> jsval \<Rightarrow> bool" where
  "same_value a b \<longleftrightarrow> primitive a \<and> a = b"

definition array_includes :: "jsval list \<Rightarrow> jsval \<Rightarrow> bool" where
  "array_includes xs v \<longleftrightarrow> (\<exists>x \<in> set xs. same_value x v)"

fun map_get :: "(jsval \<times> 'a) list \<Rightarrow> jsval \<Rightarrow> 'a option" where
  "map_get [] k = None"
| "map_get ((k', v) # m) k = (if same_value k' k then Some v else map_get m k)"

fun map_set :: "(jsval \<times> 'a) list \<Rightarrow> jsval \<Rightarrow> 'a \<Rightarrow> (jsval \<times> 'a) list" where
  "map_set [] k v = [(k, v)]"
| "map_set ((k', v') # m) k v = (if same_value k' k then (k', v) # m else (k', v') # map_set m k v)"

record compiled =
  flow :: addr
  nodes :: "(jsval \<times> addr) list"
  config :: jsval

text \<open>
  The first loop of \<open>compile\<close>: the state is the set \<open>nodeIds\<close>, the map \<open>nodes\<close> and
  the world in which the new node objects are allocated.
\<close>

fun create_nodes ::
  "env \<Rightarrow> host \<Rightarrow> jsval list \<Rightarrow> jsval list \<times> (jsval \<times> addr) list \<times> world
     \<Rightarrow> error + jsval list \<times> (jsval \<times> addr) list \<times> world" where
  "create_nodes ev h [] st = Inr st"
| "create_nodes ev h (nodeConfig # rest) (nodeIds, nds, w) =
     (case dot nodeConfig ''id'' of
        Inl e \<Rightarrow> Inl e
      | Inr ident \<Rightarrow>
          if array_includes nodeIds ident then Inl (message ''Duplicate node ID: '' ident [])
          else
            (case toString (opt nodeConfig ''kind'') of
               Inl e \<Rightarrow> Inl e
             | Inr kind \<Rightarrow>
                 (case registry ev h kind of
                    None \<Rightarrow>
                      Inl (if inherited kind then inherited_factory kind nodeConfig
                           else Error (''Unknown node kind: '' @ kind))
                  | Some factory \<Rightarrow>
                      (case factory nodeConfig of
                         Inl e \<Rightarrow> Inl e
                       | Inr n \<Rightarrow>
                           create_nodes ev h rest
                             (nodeIds @ [ident], map_set nds ident (fst (alloc n w)), snd (alloc n w))))))"

text \<open>
  The second loop: \<open>fromNode.next(toNode, edge.label || 'default')\<close> for every edge
  whose endpoints are in the map.
\<close>

fun connect_edges :: "(jsval \<times> addr) list \<Rightarrow> jsval list \<Rightarrow> world \<Rightarrow> error + world" where
  "connect_edges nds [] w = Inr w"
| "connect_edges nds (edge # rest) w =
     (case dot edge ''from'' of
        Inl e \<Rightarrow> Inl e
      | Inr fromId \<Rightarrow>
          (case (map_get nds fromId, map_get nds (opt edge ''to'')) of
             (Some fromNode, Some toNode) \<Rightarrow>
               (case BaseNode_next fromNode toNode (js_or (opt edge ''label'') (Str ''default'')) w of
                  Inl e \<Rightarrow> Inl e
                | Inr w1 \<Rightarrow> connect_edges nds rest w1)
           | _ \<Rightarrow>
               Inl (case toString fromId of
                      Inl e \<Rightarrow> e
                    | Inr f \<Rightarrow> message (''Edge references missing node: '' @ f @ '' -> '')
                                 (opt edge ''to'') [])))"

text \<open>The flow class is chosen from the classes of the nodes.\<close>

definition flow_class :: "(jsval \<times> addr) list \<Rightarrow> world \<Rightarrow> cls" where
  "flow_class nds w =
     (let hasAsyncNodes = (\<exists>(k, a) \<in> set nds. cls (heap w ! a) \<in> {AsyncNodeC, AsyncParallelBatchNodeC});
          hasBatchNodes = (\<exists>(k, a) \<in> set nds. cls (heap w ! a) = BatchNodeC)
      in if hasAsyncNodes \<and> hasBatchNodes then AsyncBatchFlowC
         else if hasAsyncNodes then AsyncFlowC
         else FlowC)"

definition compile :: "env \<Rightarrow> host \<Rightarrow> jsval \<Rightarrow> world \<Rightarrow> error + compiled \<times> world" where
  "compile ev h cfg w =
     (if nullish cfg then Inl (TypeError ''Cannot read properties of undefined or null'')
      else if \<not> truthy (opt cfg ''version'') \<or> \<not> truthy (opt cfg ''entry'')
         \<or> \<not> truthy (opt cfg ''nodes'') \<or> \<not> truthy (opt cfg ''edges'')
      then Inl (Error ''Invalid config: missing required fields (version, entry, nodes, edges)'')
      else
        (case iterate (opt cfg ''nodes'') of
           Inl e \<Rightarrow> Inl e
         | Inr nodeConfigs \<Rightarrow>
             (case create_nodes ev h nodeConfigs ([], [], w) of
                Inl e \<Rightarrow> Inl e
              | Inr (nodeIds, nds, w1) \<Rightarrow>
                  (case iterate (opt cfg ''edges'') of
                     Inl e \<Rightarrow> Inl e
                   | Inr edges \<Rightarrow>
                       (case connect_edges nds edges w1 of
                          Inl e \<Rightarrow> Inl e
                        | Inr w2 \<Rightarrow>
                            (case map_get nds (opt cfg ''entry'') of
                               None \<Rightarrow> Inl (message ''Entry node not found: '' (opt cfg ''entry'') [])
                             | Some startNode' \<Rightarrow>
                                 Inr (\<lparr>flow = fst (alloc (new_Flow (flow_class nds w2) None) w2),
                                       nodes = nds, config = cfg\<rparr>,
                                      setParams (length (heap w2)) (js_or (opt cfg ''globals'') (Obj []))
                                        (update_node (length (heap w2)) (\<lambda>n. n\<lparr>startNode := Some startNode'\<rparr>)
                                           (snd (alloc (new_Flow (flow_class nds w2) None) w2))))))))))"

subsection \<open>Validation: \<open>MetaAgentCreator.validateConfig\<close> and \<open>validateAgainstSchema\<close>\<close>

text \<open>
  \<open>k in o\<close>: true of an own property and of an inherited member; throws on a
  primitive.
\<close>

fun has_key :: "string \<Rightarrow> jsval \<Rightarrow> error + bool" where
  "has_key k (Obj kvs) = Inr (map_of kvs k \<noteq> None \<or> inherited k)"
| "has_key k (Arr xs) =
     (if k = ''length'' \<or> map_of (indexed 0 xs) k \<noteq> None then Inr True
      else Inl (OutsideModel ''a property of an array other than an element or the length''))"
| "has_key k (Fn src) = Inl (OutsideModel ''the properties of a function'')"
| "has_key k v = Inl (TypeError ''Cannot use in operator on a primitive'')"

text \<open>\<open>xs.map(n => n.id)\<close>\<close>

fun ids_of :: "jsval list \<Rightarrow> error + jsval list" where
  "ids_of [] = Inr []"
| "ids_of (n # ns) =
     (case dot n ''id'' of
        Inl e \<Rightarrow> Inl e
      | Inr i \<Rightarrow> (case ids_of ns of Inl e \<Rightarrow> Inl e | Inr is \<Rightarrow> Inr (i # is)))"

text \<open>\<open>set.add(v)\<close>\<close>

definition set_add :: "jsval list \<Rightarrow> jsval \<Rightarrow> jsval list" where
  "set_add xs v = (if array_includes xs v then xs else xs @ [v])"

text \<open>
  \<open>validateEdgeRouting\<close>, first loop: the labels a node can produce are \<open>'default'\<close>,
  its \<open>post.next\<close> and, for a router, the labels of its cases.
\<close>

fun case_labels :: "jsval list \<Rightarrow> jsval list \<Rightarrow> error + jsval list" where
  "case_labels [] actions = Inr actions"
| "case_labels (case' # cases) actions =
     (case dot case' ''label'' of
        Inl e \<Rightarrow> Inl e
      | Inr l \<Rightarrow> case_labels cases (if truthy l then set_add actions l else actions))"

definition node_actions :: "jsval \<Rightarrow> error + jsval list" where
  "node_actions nd =
     (case dot nd ''post'' of
        Inl e \<Rightarrow> Inl e
      | Inr post' \<Rightarrow>
          (let actions = (if truthy post' \<and> truthy (opt post' ''next'')
                          then set_add [Str ''default''] (opt post' ''next'')
                          else [Str ''default''])
           in if opt nd ''kind'' = Str ''router'' \<and> truthy (opt nd ''exec'')
                 \<and> truthy (opt (opt nd ''exec'') ''cases'')
              then (case iterate (opt (opt nd ''exec'') ''cases'') of
                      Inl e \<Rightarrow> Inl e
                    | Inr cases \<Rightarrow> case_labels cases actions)
              else Inr actions))"

fun all_actions :: "jsval list \<Rightarrow> (jsval \<times> jsval list) list \<Rightarrow> error + (jsval \<times> jsval list) list" where
  "all_actions [] m = Inr m"
| "all_actions (nd # nds) m =
     (case node_actions nd of
        Inl e \<Rightarrow> Inl e
      | Inr actions \<Rightarrow> all_actions nds (map_set m (opt nd ''id'') actions))"

text \<open>\<open>config.nodes.find(n => n.id === edge.from)\<close>\<close>

fun find_node :: "jsval list \<Rightarrow> jsval \<Rightarrow> error + jsval" where
  "find_node [] fromId = Inr Undefined"
| "find_node (n # ns) fromId =
     (case dot n ''id'' of
        Inl e \<Rightarrow> Inl e
      | Inr i \<Rightarrow> if same_value i fromId then Inr n else find_node ns fromId)"

text \<open>
  Second loop: every edge of a known source must carry one of its labels. The message
  of the error converts the edge's ends, the label and the valid labels to strings.
\<close>

definition routing_error :: "jsval \<Rightarrow> jsval \<Rightarrow> jsval \<Rightarrow> jsval list \<Rightarrow> error" where
  "routing_error fromId toId label validActions =
     (case toString fromId of
        Inl e \<Rightarrow> e
      | Inr f \<Rightarrow>
          (case toString toId of
             Inl e \<Rightarrow> e
           | Inr t \<Rightarrow>
               (case toString label of
                  Inl e \<Rightarrow> e
                | Inr l \<Rightarrow>
                    (case joined '', '' validActions of
                       Inl e \<Rightarrow> e
                     | Inr vs \<Rightarrow>
                         Error (''Invalid edge routing: Node '' @ [CHR 0x27] @ f @ [CHR 0x27]
                                @ '' cannot route to '' @ [CHR 0x27] @ t @ [CHR 0x27]
                                @ '' with label '' @ [CHR 0x27] @ l @ [CHR 0x27]
                                @ ''. Valid actions: '' @ vs)))))"

fun check_routing :: "jsval list \<Rightarrow> (jsval \<times> jsval list) list \<Rightarrow> jsval list \<Rightarrow> error + unit" where
  "check_routing nds nodeActions [] = Inr ()"
| "check_routing nds nodeActions (edge # edges) =
     (case dot edge ''from'' of
        Inl e \<Rightarrow> Inl e
      | Inr fromId \<Rightarrow>
          (case find_node nds fromId of
             Inl e \<Rightarrow> Inl e
           | Inr fromNode \<Rightarrow>
               if \<not> truthy fromNode then check_routing nds nodeActions edges
               else
                 (case map_get nodeActions fromId of
                    None \<Rightarrow> Inl (TypeError ''Cannot read properties of undefined (reading has)'')
                  | Some validActions \<Rightarrow>
                      if array_includes validActions (js_or (opt edge ''label'') (Str ''default''))
                      then check_routing nds nodeActions edges
                      else Inl (routing_error fromId (opt edge ''to'')
                                  (js_or (opt edge ''label'') (Str ''default'')) validActions))))"

definition validateEdgeRouting :: "jsval \<Rightarrow> error + unit" where
  "validateEdgeRouting cfg =
     (case iterate (opt cfg ''nodes'') of
        Inl e \<Rightarrow> Inl e
      | Inr nds \<Rightarrow>
          (case all_actions nds [] of
             Inl e \<Rightarrow> Inl e
           | Inr nodeActions \<Rightarrow>
               (case iterate (opt cfg ''edges'') of
                  Inl e \<Rightarrow> Inl e
                | Inr edges \<Rightarrow> check_routing nds nodeActions edges)))"

fun check_endpoints :: "jsval list \<Rightarrow> jsval list \<Rightarrow> error + unit" where
  "check_endpoints nodeIds [] = Inr ()"
| "check_endpoints nodeIds (edge # edges) =
     (case dot edge ''from'' of
        Inl e \<Rightarrow> Inl e
      | Inr fromId \<Rightarrow>
          if \<not> array_includes nodeIds fromId
          then Inl (message ''Edge references missing node: '' fromId [])
          else if \<not> array_includes nodeIds (opt edge ''to'')
          then Inl (message ''Edge references missing node: '' (opt edge ''to'') [])
          else check_endpoints nodeIds edges)"

definition validateConfig :: "jsval \<Rightarrow> error + unit" where
  "validateConfig cfg =
     (if nullish cfg then Inl (TypeError ''Cannot read properties of undefined or null'')
      else if \<not> truthy (opt cfg ''version'') \<or> \<not> truthy (opt cfg ''entry'')
         \<or> \<not> truthy (opt cfg ''nodes'') \<or> \<not> truthy (opt cfg ''edges'')
      then Inl (Error ''Invalid config: missing required fields (version, entry, nodes, edges)'')
      else
        (case (opt cfg ''nodes'', opt cfg ''edges'') of
           (Arr nds, Arr edges) \<Rightarrow>
             if nds = [] then Inl (Error ''Config must have at least one node'')
             else
               (case ids_of nds of
                  Inl e \<Rightarrow> Inl e
                | Inr nodeIds \<Rightarrow>
                    if \<not> array_includes nodeIds (opt cfg ''entry'')
                    then Inl (message (''Entry node '' @ [CHR 0x27]) (opt cfg ''entry'')
                                ([CHR 0x27] @ '' not found in nodes''))
                    else (case check_endpoints nodeIds edges of
                            Inl e \<Rightarrow> Inl e
                          | Inr u \<Rightarrow> validateEdgeRouting cfg))
         | (Arr nds, other) \<Rightarrow>
             if nds = [] then Inl (Error ''Config must have at least one node'')
             else Inl (Error ''Config must have edges array'')
         | (other, edges) \<Rightarrow> Inl (Error ''Config must have at least one node'')))"

text \<open>
  \<open>validateAgainstSchema\<close> reads \<open>schema.json\<close>, which is not among the sources; what
  it reads from it is a parameter: the list \<open>required\<close> and the enumeration of kinds.
\<close>

record schema =
  required :: "string list"
  kinds :: "jsval list"

fun check_required :: "string list \<Rightarrow> jsval \<Rightarrow> error + unit" where
  "check_required [] cfg = Inr ()"
| "check_required (field # rest) cfg =
     (case has_key field cfg of
        Inl e \<Rightarrow> Inl e
      | Inr present \<Rightarrow>
          if present then check_required rest cfg
          else Inl (Error (''Missing required field: '' @ field)))"

text \<open>\<open>/^pf-js\/\d+\.\d+$/.test(version)\<close>\<close>

definition is_digit :: "char \<Rightarrow> bool" where
  "is_digit c \<longleftrightarrow> c \<in> set ''0123456789''"

definition version_ok :: "string \<Rightarrow> bool" where
  "version_ok v \<longleftrightarrow>
     take 6 v = ''pf-js/''
     \<and> takeWhile is_digit (drop 6 v) \<noteq> []
     \<and> take 1 (dropWhile is_digit (drop 6 v)) = ''.''
     \<and> drop 1 (dropWhile is_digit (drop 6 v)) \<noteq> []
     \<and> (\<forall>c \<in> set (drop 1 (dropWhile is_digit (drop 6 v))). is_digit c)"

text \<open>
  \<open>if (config.version && !pattern.test(config.version)) throw ...\<close>: \<open>test\<close>
  converts its argument to a string.
\<close>

definition check_version :: "jsval \<Rightarrow> error + unit" where
  "check_version version =
     (if truthy version then
        (case toString version of
           Inl e \<Rightarrow> Inl e
         | Inr v \<Rightarrow>
             if version_ok v then Inr ()
             else Inl (Error (''Invalid version format: '' @ v @ ''. Expected format: pf-js/1.0'')))
      else Inr ())"

text \<open>The message of an invalid kind joins the valid kinds of the schema.\<close>

definition kind_error :: "jsval \<Rightarrow> jsval list \<Rightarrow> error" where
  "kind_error kind validKinds =
     (case toString kind of
        Inl e \<Rightarrow> e
      | Inr k \<Rightarrow>
          (case joined '', '' validKinds of
             Inl e \<Rightarrow> e
           | Inr vs \<Rightarrow> Error (''Invalid node kind: '' @ k @ ''. Valid kinds: '' @ vs)))"

fun check_kinds :: "jsval list \<Rightarrow> jsval list \<Rightarrow> error + unit" where
  "check_kinds validKinds [] = Inr ()"
| "check_kinds validKinds (nd # nds) =
     (case dot nd ''kind'' of
        Inl e \<Rightarrow> Inl e
      | Inr kind \<Rightarrow>
          if truthy kind \<and> \<not> array_includes validKinds kind
          then Inl (kind_error kind validKinds)
          else check_kinds validKinds nds)"

fun check_edge_fields :: "jsval list \<Rightarrow> error + unit" where
  "check_edge_fields [] = Inr ()"
| "check_edge_fields (edge # edges) =
     (case has_key ''from'' edge of
        Inl e \<Rightarrow> Inl e
      | Inr f \<Rightarrow>
          if \<not> f then Inl (Error ''Missing required edge field: from'')
          else (case has_key ''to'' edge of
                  Inl e \<Rightarrow> Inl e
                | Inr t \<Rightarrow>
                    if \<not> t then Inl (Error ''Missing required edge field: to'')
                    else check_edge_fields edges))"

definition validateAgainstSchema :: "schema \<Rightarrow> jsval \<Rightarrow> error + unit" where
  "validateAgainstSchema sch cfg =
     (case check_required (required sch) cfg of
        Inl e \<Rightarrow> Inl e
      | Inr u \<Rightarrow>
          (case check_version (opt cfg ''version'') of
             Inl e \<Rightarrow> Inl e
           | Inr u \<Rightarrow>
               (case iterate (opt cfg ''nodes'') of
                  Inl e \<Rightarrow> Inl e
                | Inr nds \<Rightarrow>
                    (case check_kinds (kinds sch) nds of
                       Inl e \<Rightarrow> Inl e
                     | Inr u \<Rightarrow>
                         (case iterate (opt cfg ''edges'') of
                            Inl e \<Rightarrow> Inl e
                          | Inr edges \<Rightarrow> check_edge_fields edges)))))"

text \<open>The two validations \<open>createAgentFromDescription\<close> runs before it compiles.\<close>

definition validate :: "schema \<Rightarrow> jsval \<Rightarrow> error + unit" where
  "validate sch cfg =
     (case validateConfig cfg of
        Inl e \<Rightarrow> Inl e
      | Inr u \<Rightarrow> validateAgainstSchema sch cfg)"



section \<open>Properties of the compiler\<close>

subsection \<open>Sample collaborators\<close>

text \<open>
  A host known on a few sources, on which it does what JavaScript does: \<open>true\<close> and
  \<open>false\<close> evaluate to themselves; \<open>foo bar\<close> (two identifiers in a row) is a syntax
  error; \<open>ctx.seen = 0\<close> writes to the shared context and has the value \<open>0\<close>;
  \<open>ctx.seen === 0\<close> reads it. Its \<open>JSON.stringify\<close> is known on the empty array and
  the empty object. The worked examples below evaluate
  nothing else and do not use \<open>fetch\<close>. The environment has an LLM client that always
  answers.
\<close>

definition sample_host :: host where
  "sample_host =
     \<lparr>new_Function = (\<lambda>t src ctx result.
          if src = ''true'' then (Inr (Bool True), ctx, result)
          else if src = ''false'' then (Inr (Bool False), ctx, result)
          else if src = ''foo bar'' then (Inl (SyntaxError ''Unexpected identifier''), ctx, result)
          else if src = ''ctx.seen = 0'' then
            (case ctx of
               Obj kvs \<Rightarrow> (Inr (Num 0), Obj (assign kvs ''seen'' (Num 0)), result)
             | _ \<Rightarrow> (Inl (OutsideModel src), ctx, result))
          else if src = ''ctx.seen === 0'' then
            (case ctx of
               Obj kvs \<Rightarrow> (Inr (Bool (map_of kvs ''seen'' = Some (Num 0))), ctx, result)
             | _ \<Rightarrow> (Inl (OutsideModel src), ctx, result))
          else (Inl (OutsideModel src), ctx, result)),
      JSON_stringify = (\<lambda>v. if v = Arr [] then Inr (Str ''[]'')
                             else if v = Obj [] then Inr (Str ''{}'')
                             else Inl (OutsideModel ''JSON.stringify'')),
      fetch = (\<lambda>t url options. Inl (OutsideModel ''fetch''))\<rparr>"

definition answering_env :: env where
  "answering_env = \<lparr>llm = Some (\<lambda>t request. Inr (Obj [(''text'', Str ''ok'')])), globals = Undefined\<rparr>"

definition empty_world :: world where
  "empty_world = \<lparr>heap = [], shared = Obj [], trace = [], ticks = 0\<rparr>"

subsection \<open>The end-to-end scenario\<close>

text \<open>The graph of the end-to-end scenario, as the specification writes it.\<close>

definition claimed_graph :: jsval where
  "claimed_graph = Obj [
     (''entry'', Str ''greet''),
     (''nodes'', Arr [Obj [(''id'', Str ''greet''), (''kind'', Str ''static-data''),
                          (''exec'', Obj [(''message'', Str ''hi'')]),
                          (''post'', Obj [(''outputs'', Obj [(''save'',
                              Arr [Obj [(''path'', Str ''out''),
                                        (''valueTemplate'', Str ''{{exec.message}}'')]])])])]]),
     (''edges'', Arr [])]"

text \<open>
  The same scenario in the vocabulary of the compiler: a version, the kind \<open>data\<close>, the
  save field \<open>value\<close>, and the execute result under its name \<open>result\<close>.
\<close>

definition greet_config :: jsval where
  "greet_config = Obj [(''id'', Str ''greet''), (''kind'', Str ''data''),
                       (''exec'', Obj [(''message'', Str ''hi'')]),
                       (''post'', Obj [(''outputs'', Obj [(''save'',
                           Arr [Obj [(''path'', Str ''out''),
                                     (''value'', Str ''{{result.message}}'')]])])])]"

definition greet_graph :: jsval where
  "greet_graph = Obj [
     (''version'', Str ''pf-js/1.0''),
     (''entry'', Str ''greet''),
     (''nodes'', Arr [greet_config]),
     (''edges'', Arr [])]"

lemma greet_compiles:
  "compile ev h greet_graph empty_world =
     Inr (\<lparr>flow = 1, nodes = [(Str ''greet'', 0)], config = greet_graph\<rparr>,
          \<lparr>heap = [(new_Node NodeC 1 0)\<lparr>prep := (\<lambda>t sh. (Inr (Obj [(''shared'', sh)]), sh, t)),
                        exec := (\<lambda>t prepRes. Inr (Obj [(''message'', Str ''hi'')])),
                        post := data_post h greet_config\<rparr>,
                   (new_Flow FlowC (Some 0))\<lparr>params := Obj []\<rparr>],
           shared = Obj [], trace = [], ticks = 0\<rparr>)"
  by (simp add: compile_def greet_graph_def empty_world_def registry_def factories_def
      createDataNode_def array_includes_def dot_def same_value_def alloc_def flow_class_def
      js_or_def setParams_def update_node_def new_Flow_def new_Node_def greet_config_def)

lemma greet_template:
  "interpolate h (Str ''{{result.message}}'') (sh, Obj [(''message'', Str ''hi'')], t) =
     (Inr (Str ''hi''), sh, Obj [(''message'', Str ''hi'')], t)"
  by (simp add: interpolate_def placeholder_def starts_with_def evaluateExpression_def
      getNestedProperty_def evalContext_def js_or_def capture_def is_space_def)

lemma greet_post:
  "data_post h greet_config t (Obj []) p (Obj [(''message'', Str ''hi'')]) =
     (Inr Null, Obj [(''out'', Str ''hi'')], t)"
  by (simp add: data_post_def post_saves_def greet_config_def dot_def greet_template
      setNestedProperty_def next_label_def js_or_def)

text \<open>
  C7, as amended. The graph as the specification writes it does not compile (it has
  no \<open>version\<close>; with one, its kind \<open>static-data\<close> is not registered). In the
  compiler's vocabulary the scenario holds: for every environment and host, the graph
  \<open>{version: "pf-js/1.0", entry: "greet", nodes: [{id: "greet", kind: "data",
  exec: {message: "hi"}, post: {outputs: {save: [{path: "out", value:
  "{{result.message}}"}]}}}], edges: []}\<close> compiles, and its run against the empty
  shared context returns \<open>null\<close> (no label) and leaves \<open>out = "hi"\<close>.
\<close>

theorem greeting_scenario:
  "\<exists>c w w'. compile ev h greet_graph empty_world = Inr (c, w)
      \<and> run 1 (flow c) w = (Return Null, w')
      \<and> shared w' = Obj [(''out'', Str ''hi'')]"
  by (simp add: greet_compiles run_def run_node.simps is_flow_def new_Flow_def new_Node_def
      Node_run_def run_prep_def Node_exec_def Node_exec_from.simps call_exec_def set_curRetry_def
      update_node_def setParams_def emit_def clone_def alloc_def run_post_def greet_post
      getNextNode_def lookup_def js_or_def inherited_def object_prototype_keys_def)

theorem greeting_scenario_witness:
  "\<exists>c w w'. compile answering_env sample_host greet_graph empty_world = Inr (c, w)
      \<and> run 1 (flow c) w = (Return Null, w')
      \<and> shared w' = Obj [(''out'', Str ''hi'')]"
  using greeting_scenario[of answering_env sample_host] .

theorem claimed_graph_rejected:
  "compile answering_env sample_host claimed_graph empty_world =
     Inl (Error ''Invalid config: missing required fields (version, entry, nodes, edges)'')"
  by (simp add: compile_def claimed_graph_def)

text \<open>
  What stands between the graph as written and the scenario, one step at a time:
  with a version the kind is unknown; a \<open>valueTemplate\<close> field is never read, so
  \<open>undefined\<close> is saved; and \<open>exec\<close> is not a name of the evaluation context, so
  \<open>{{exec.message}}\<close> becomes the text \<open>undefined\<close>.
\<close>

lemma static_data_unknown:
  "create_nodes ev h [Obj [(''id'', Str ''greet''), (''kind'', Str ''static-data'')]] ([], [], w)
     = Inl (Error ''Unknown node kind: static-data'')"
  by (simp add: registry_def factories_def dot_def array_includes_def inherited_def
      object_prototype_keys_def)

lemma valueTemplate_not_read:
  "save_outputs h [Obj [(''path'', Str ''out''), (''valueTemplate'', Str ''{{exec.message}}'')]]
       (Obj [], r, t)
     = (None, Obj [(''out'', Undefined)], r, t)"
  by (simp add: dot_def interpolate_def setNestedProperty_def)

lemma exec_path_undefined:
  "interpolate h (Str ''{{exec.message}}'') (sh, Obj [(''message'', Str ''hi'')], t) =
     (Inr (Str ''undefined''), sh, Obj [(''message'', Str ''hi'')], t)"
  by (simp add: interpolate_def placeholder_def starts_with_def evaluateExpression_def
      getNestedProperty_def evalContext_def js_or_def capture_def is_space_def inherited_def
      object_prototype_keys_def)

subsection \<open>The review and revise cycle\<close>

definition review_config :: jsval where
  "review_config = Obj [(''id'', Str ''review''), (''kind'', Str ''llm''),
                        (''exec'', Obj [(''prompt'', Str ''Review {{ctx.draft}}'')])]"

definition revise_config :: jsval where
  "revise_config = Obj [(''id'', Str ''revise''), (''kind'', Str ''llm''),
                        (''exec'', Obj [(''prompt'', Str ''Revise {{ctx.draft}}'')]),
                        (''loop_guard'', Obj [(''max_iterations'', Num 3)])]"

definition cycle_graph :: jsval where
  "cycle_graph = Obj [
     (''version'', Str ''pf-js/1.0''),
     (''entry'', Str ''review''),
     (''nodes'', Arr [review_config, revise_config]),
     (''edges'', Arr [Obj [(''from'', Str ''review''), (''to'', Str ''revise'')],
                     Obj [(''from'', Str ''revise''), (''to'', Str ''review'')]])]"

definition cycle_world :: "host \<Rightarrow> world" where
  "cycle_world h =
     \<lparr>heap = [(new_Node NodeC 1 0)\<lparr>successors := [(''default'', 1)],
                  prep := llm_prep answering_env h review_config, exec := llm_exec answering_env,
                  execIsAsync := True, post := result_post h review_config\<rparr>,
              (new_Node NodeC 1 0)\<lparr>successors := [(''default'', 0)],
                  prep := llm_prep answering_env h revise_config, exec := llm_exec answering_env,
                  execIsAsync := True, post := result_post h revise_config\<rparr>,
              (new_Flow FlowC (Some 0))\<lparr>params := Obj []\<rparr>],
      shared = Obj [], trace = [], ticks = 0\<rparr>"

lemma cycle_compiles:
  "compile answering_env h cycle_graph empty_world =
     Inr (\<lparr>flow = 2, nodes = [(Str ''review'', 0), (Str ''revise'', 1)], config = cycle_graph\<rparr>,
          cycle_world h)"
  by (simp add: compile_def cycle_graph_def empty_world_def registry_def factories_def
      createLLMNode_def new_retrying_def retry_number_def
      array_includes_def dot_def same_value_def alloc_def flow_class_def js_or_def
      setParams_def update_node_def new_Flow_def new_Node_def review_config_def revise_config_def
      BaseNode_next_def action_key_def cycle_world_def)

definition revise_count :: "event list \<Rightarrow> nat" where
  "revise_count evs = length (filter (\<lambda>ev. ev = Lifecycle 1) evs)"

definition llm_like :: "host \<Rightarrow> jsval \<Rightarrow> addr \<Rightarrow> node \<Rightarrow> bool" where
  "llm_like h cfg nxt n \<longleftrightarrow>
     cls n = NodeC \<and> maxRetries n = 1 \<and> successors n = [(''default'', nxt)]
     \<and> prep n = llm_prep answering_env h cfg \<and> exec n = llm_exec answering_env
     \<and> post n = result_post h cfg"

definition cycle_config :: "addr \<Rightarrow> jsval" where
  "cycle_config origin = (if origin = 0 then review_config else revise_config)"

lemma map_of_assign: "map_of (assign kvs k v) = (map_of kvs)(k \<mapsto> v)"
  by (induction kvs) auto

text \<open>
  The stages of the two nodes on a shared context without a \<open>draft\<close>: the prompt
  reads \<open>undefined\<close> for it, the client answers, and the post stage stores the answer
  under \<open>_lastResult\<close> and returns no label. Nothing is asked of the host.
\<close>

lemma cycle_stages:
  "map_of kvs ''draft'' = None \<Longrightarrow>
     \<exists>p. llm_prep answering_env h (cycle_config origin) t (Obj kvs) = (Inr p, Obj kvs, t)"
  "llm_exec answering_env t p = Inr (Obj [(''text'', Str ''ok'')])"
  "result_post h (cycle_config origin) t (Obj kvs) p r =
     (Inr Null, Obj (assign kvs ''_lastResult'' r), t)"
  by (simp_all add: llm_prep_def llm_exec_def answering_env_def dot_def
      result_post_def data_post_def post_saves_def next_label_def js_or_def
      cycle_config_def review_config_def revise_config_def
      interpolate_def placeholder_def starts_with_def evaluateExpression_def
      getNestedProperty_def evalContext_def capture_def is_space_def inherited_def
      object_prototype_keys_def)

lemma llm_like_update:
  "llm_like h cfg nxt n \<Longrightarrow> llm_like h cfg nxt (n\<lparr>params := p\<rparr>)"
  "llm_like h cfg nxt n \<Longrightarrow> llm_like h cfg nxt (n\<lparr>curRetry := i\<rparr>)"
  by (simp_all add: llm_like_def)

lemma cycle_lifecycle:
  assumes "llm_like h (cycle_config origin) nxt (heap w ! cn)" and "cn < length (heap w)"
    and "shared w = Obj kvs" and "map_of kvs ''draft'' = None"
  shows "\<exists>w1 kvs' p. Node_run cn w = (Return Null, w1) \<and> shared w1 = Obj kvs'
           \<and> map_of kvs' ''draft'' = None
           \<and> heap w1 = (heap w)[cn := (heap w ! cn)\<lparr>curRetry := 0\<rparr>]
           \<and> trace w1 = trace w @ [ExecCall p]"
proof -
  obtain p where p: "prep (heap w ! cn) (ticks w) (shared w) = (Inr p, Obj kvs, ticks w)"
    using assms(1,3) cycle_stages(1)[OF assms(4), of h origin "ticks w"] by (auto simp: llm_like_def)
  then have rp: "run_prep cn w = (Inr p, w)"
    using assms(3) by (simp add: run_prep_def)
  have ex: "exec (heap w ! cn) t p = Inr (Obj [(''text'', Str ''ok'')])" for t
    using assms(1) cycle_stages(2) by (simp add: llm_like_def)
  have mr: "maxRetries (heap w ! cn) = 1" using assms(1) by (simp add: llm_like_def)
  have e: "Node_exec cn p w =
             (Inr (Obj [(''text'', Str ''ok'')]),
              (set_curRetry cn 0 w)\<lparr>trace := trace w @ [ExecCall p], ticks := Suc (ticks w)\<rparr>)"
    unfolding Node_exec_def
    by (subst Node_exec_from.simps) (simp add: mr call_exec_def ex)
  have po: "post (heap (set_curRetry cn 0 w) ! cn) = result_post h (cycle_config origin)"
    using assms(1) by (simp add: llm_like_def)
  have d: "map_of (assign kvs ''_lastResult'' r) ''draft'' = None" for r
    using assms(4) by (simp add: map_of_assign)
  show ?thesis
    using rp e po assms(3) d cycle_stages(3)[of h origin _ kvs]
    by (simp add: Node_run_def run_post_def set_curRetry_def update_node_def)
qed

definition cycle_inv :: "host \<Rightarrow> world \<Rightarrow> bool" where
  "cycle_inv h w \<longleftrightarrow>
     llm_like h review_config 1 (heap w ! 0) \<and> llm_like h revise_config 0 (heap w ! 1)
     \<and> 2 < length (heap w) \<and> (\<exists>kvs. shared w = Obj kvs \<and> map_of kvs ''draft'' = None)"

lemma cycle_never_returns:
  assumes "cycle_inv h w" and "origin < 2" and "1 < cn" and "cn < length (heap w)"
    and "llm_like h (cycle_config origin) (1 - origin) (heap w ! cn)"
  shows "fst (orch_loop f p origin cn w) = Timeout
       \<and> revise_count (trace (snd (orch_loop f p origin cn w))) = revise_count (trace w) + (f + origin) div 2"
  using assms
proof (induction f arbitrary: w origin cn)
  case 0
  then show ?case by simp
next
  case (Suc f)
  let ?w0 = "emit (Lifecycle origin) (setParams cn p w)"
  obtain kvs where kvs: "shared w = Obj kvs" and dr: "map_of kvs ''draft'' = None"
    using Suc.prems(1) by (auto simp: cycle_inv_def)
  have h0: "heap (setParams cn p w) = (heap w)[cn := (heap w ! cn)\<lparr>params := p\<rparr>]"
    by (simp add: setParams_def update_node_def)
  have like0: "llm_like h (cycle_config origin) (1 - origin) (heap ?w0 ! cn)"
    using Suc.prems(4,5) by (simp add: h0 llm_like_update)
  have len0: "cn < length (heap ?w0)" using Suc.prems(4) by (simp add: h0)
  have sh0: "shared ?w0 = Obj kvs" using kvs by (simp add: setParams_def update_node_def emit_def)
  obtain w1 kvs' q where r: "Node_run cn ?w0 = (Return Null, w1)" and sh1: "shared w1 = Obj kvs'"
    and dr1: "map_of kvs' ''draft'' = None"
    and h1: "heap w1 = (heap ?w0)[cn := (heap ?w0 ! cn)\<lparr>curRetry := 0\<rparr>]"
    and t1: "trace w1 = trace ?w0 @ [ExecCall q]"
    using cycle_lifecycle[OF like0 len0 sh0 dr] by blast
  have cls: "cls (heap ?w0 ! cn) = NodeC" using like0 by (simp add: llm_like_def)
  have rn: "run_node f cn ?w0 = (Return Null, w1)"
    using cls r by (subst run_node.simps) simp
  have like1: "llm_like h (cycle_config origin) (1 - origin) (heap w1 ! cn)"
    using like0 len0 by (simp add: h1 llm_like_update)
  have nxt: "getNextNode (heap w1 ! cn) Null = Inr (NodeAt (1 - origin))"
    using like1 by (simp add: getNextNode_def llm_like_def lookup_def js_or_def)
  have len1: "length (heap w1) = length (heap w)" by (simp add: h1 h0)
  have old: "heap w1 ! a = heap w ! a" if "a < 2" for a
    using that Suc.prems(3) by (simp add: h1 h0)
  have inv1: "cycle_inv h w1"
    using Suc.prems(1) sh1 dr1 old[of 0] old[of 1] len1 by (simp add: cycle_inv_def)
  let ?w2 = "snd (clone (1 - origin) w1)"
  have inv2: "cycle_inv h ?w2"
    using inv1 by (auto simp: cycle_inv_def clone_def alloc_def nth_append)
  have cn2: "heap ?w2 ! (length (heap w1)) = heap w ! (1 - origin)"
    using old[of "1 - origin"] Suc.prems(2) by (simp add: clone_def alloc_def)
  have like2: "llm_like h (cycle_config (1 - origin)) (1 - (1 - origin)) (heap ?w2 ! (length (heap w1)))"
    using Suc.prems(1,2) unfolding cn2
    by (cases "origin = 0") (auto simp: cycle_inv_def cycle_config_def)
  have IH: "fst (orch_loop f p (1 - origin) (length (heap w1)) ?w2) = Timeout
       \<and> revise_count (trace (snd (orch_loop f p (1 - origin) (length (heap w1)) ?w2)))
           = revise_count (trace ?w2) + (f + (1 - origin)) div 2"
    using Suc.IH[OF inv2 _ _ _ like2] len1 Suc.prems(2,3,4) by simp
  have step: "orch_loop (Suc f) p origin cn w = orch_loop f p (1 - origin) (length (heap w1)) ?w2"
  proof -
    have "1 - origin < length (heap w1)" using len1 Suc.prems(3,4) by simp
    then show ?thesis using rn nxt by simp
  qed
  have tr: "revise_count (trace ?w2) = revise_count (trace w) + (if origin = 1 then 1 else 0)"
    by (simp add: clone_def alloc_def t1 emit_def setParams_def update_node_def revise_count_def)
  show ?case
    unfolding step using IH tr Suc.prems(2)
    by (cases "origin = 0") auto
qed

lemma flow_timeout:
  assumes "is_flow (cls (heap w ! this))"
    and "prep (heap w ! this) (ticks w) (shared w) = (Inr pr, shared w, ticks w)"
    and "startNode (heap w ! this) = Some s" and "s < length (heap w)"
    and "fst (orch_loop f (spread (params (heap w ! this))) s (fst (clone s w)) (snd (clone s w))) = Timeout"
  shows "run f this w = orch_loop f (spread (params (heap w ! this))) s (fst (clone s w)) (snd (clone s w))"
proof -
  have rp: "run_prep this w = (Inr pr, w)"
    by (simp add: run_prep_def assms(2))
  show ?thesis
    using assms(3,4,5) rp
    by (cases "orch_loop f (spread (params (heap w ! this))) s (fst (clone s w)) (snd (clone s w))")
       (auto simp: run_def run_node_flow[OF assms(1)])
qed

text \<open>
  C8. The claim is that \<open>revise\<close>, which declares \<open>loop_guard.max_iterations = 3\<close>,
  runs at most 3 times in a \<open>review \<rightleftharpoons> revise\<close> cycle. Nothing reads \<open>loop_guard\<close>:
  the graph compiles, \<open>revise\<close> is the node at address 1, and for every amount of fuel
  \<open>f\<close> the run has not returned after \<open>f\<close> hops and \<open>revise\<close> has run \<open>f div 2\<close> times
  (4 times after 8 hops).
\<close>

theorem loop_guard_not_enforced:
  "\<exists>c w. compile answering_env h cycle_graph empty_world = Inr (c, w)
      \<and> map_get (nodes c) (Str ''revise'') = Some 1
      \<and> (\<forall>f. fst (run f (flow c) w) = Timeout
               \<and> revise_count (trace (snd (run f (flow c) w))) = f div 2)"
proof -
  let ?w = "snd (clone 0 (cycle_world h))"
  let ?cn = "fst (clone 0 (cycle_world h))"
  let ?p = "spread (params (heap (cycle_world h) ! 2))"
  have inv: "cycle_inv h ?w"
    by (simp add: cycle_inv_def cycle_world_def clone_def alloc_def llm_like_def new_Node_def)
  have like: "llm_like h (cycle_config 0) (1 - 0) (heap ?w ! ?cn)"
    by (simp add: cycle_config_def cycle_world_def clone_def alloc_def llm_like_def new_Node_def)
  have cn: "1 < ?cn" "?cn < length (heap ?w)"
    by (simp_all add: cycle_world_def)
  have never: "fst (orch_loop f ?p 0 ?cn ?w) = Timeout
       \<and> revise_count (trace (snd (orch_loop f ?p 0 ?cn ?w))) = f div 2" for f
  proof -
    have "revise_count (trace ?w) = 0"
      by (simp add: cycle_world_def clone_def alloc_def revise_count_def)
    then show ?thesis
      using cycle_never_returns[OF inv _ cn like, of f ?p] by simp
  qed
  have run: "run f 2 (cycle_world h) = orch_loop f ?p 0 ?cn ?w" for f
  proof (rule flow_timeout[where pr = Undefined])
    show "is_flow (cls (heap (cycle_world h) ! 2))"
      by (simp add: cycle_world_def new_Flow_def new_Node_def is_flow_def)
    show "prep (heap (cycle_world h) ! 2) (ticks (cycle_world h)) (shared (cycle_world h))
            = (Inr Undefined, shared (cycle_world h), ticks (cycle_world h))"
      by (simp add: cycle_world_def new_Flow_def new_Node_def)
    show "startNode (heap (cycle_world h) ! 2) = Some 0"
      by (simp add: cycle_world_def new_Flow_def new_Node_def)
    show "0 < length (heap (cycle_world h))"
      by (simp add: cycle_world_def)
    show "fst (orch_loop f ?p 0 ?cn ?w) = Timeout"
      using never by simp
  qed
  show ?thesis
    using never by (simp add: cycle_compiles run same_value_def)
qed


theorem loop_guard_not_enforced_witness:
  "\<exists>c w. compile answering_env sample_host cycle_graph empty_world = Inr (c, w)
      \<and> map_get (nodes c) (Str ''revise'') = Some 1
      \<and> fst (run 8 (flow c) w) = Timeout
      \<and> revise_count (trace (snd (run 8 (flow c) w))) = 4"
proof -
  obtain c w where "compile answering_env sample_host cycle_graph empty_world = Inr (c, w)"
    and "map_get (nodes c) (Str ''revise'') = Some 1"
    and "\<forall>f. fst (run f (flow c) w) = Timeout
               \<and> revise_count (trace (snd (run f (flow c) w))) = f div 2"
    using loop_guard_not_enforced[of sample_host] by blast
  then show ?thesis by force
qed


subsection \<open>Router cases\<close>









text \<open>
  What is not source text is not covered: a condition that is an object whose
  conversion to a string throws is not treated as false, the post stage throws.
\<close>

lemma unconvertible_condition_raises:
  assumes "createRouterNode ev h nodeConfig = Inr n"
    and "opt (opt nodeConfig ''exec'') ''cases'' =
           Arr [Obj [(''label'', Str ''never''), (''when'', Obj [(''toString'', Num 1)])]]"
    and "\<not> nullish sh"
  shows "post n t sh prepRes execRes =
           (Inl (TypeError ''Cannot convert object to primitive value''), sh, t)"
proof -
  have "post n = router_post h nodeConfig"
    using assms(1) by (auto simp: createRouterNode_def)
  then show ?thesis
    using assms(2,3) by (simp add: router_post_def dot_def js_or_def evaluateCondition_def)
qed




subsection \<open>Failing placeholders\<close>

lemma replace_all_match:
  "match_at s = Some (m, expr, rest) \<Longrightarrow>
   replace_all cb s sc =
     (case cb m expr sc of
        (Inl err, sc1) \<Rightarrow> (Inl err, sc1)
      | (Inr v, sc1) \<Rightarrow>
          (case toString v of
             Inl err \<Rightarrow> (Inl err, sc1)
           | Inr x \<Rightarrow>
               (case replace_all cb rest sc1 of
                  (Inl err, sc2) \<Rightarrow> (Inl err, sc2)
                | (Inr out, sc2) \<Rightarrow> (Inr (x @ out), sc2))))"
  by (cases s) simp_all

lemma replace_all_prefix:
  "\<forall>i < length pre. match_at (drop i (pre @ s)) = None \<Longrightarrow>
   replace_all cb (pre @ s) sc =
     (case replace_all cb s sc of
        (Inl err, sc1) \<Rightarrow> (Inl err, sc1)
      | (Inr out, sc1) \<Rightarrow> (Inr (pre @ out), sc1))"
proof (induction pre)
  case Nil
  show ?case by (auto split: prod.splits sum.splits)
next
  case (Cons c pre)
  have head: "match_at ((c # pre) @ s) = None"
    using Cons.prems by (metis drop0 length_greater_0_conv list.distinct(1))
  have "\<forall>i < length pre. match_at (drop i (pre @ s)) = None"
  proof (intro allI impI)
    fix i assume "i < length pre"
    then have "match_at (drop (Suc i) ((c # pre) @ s)) = None"
      using Cons.prems by (metis Suc_less_eq length_Cons)
    then show "match_at (drop i (pre @ s)) = None" by simp
  qed
  then have "replace_all cb (pre @ s) sc =
     (case replace_all cb s sc of
        (Inl err, sc1) \<Rightarrow> (Inl err, sc1)
      | (Inr out, sc1) \<Rightarrow> (Inr (pre @ out), sc1))" by (rule Cons.IH)
  then show ?case using head by (auto split: prod.splits sum.splits)
qed

lemma replace_all_plain:
  "\<forall>i < length s. match_at (drop i s) = None \<Longrightarrow> replace_all cb s sc = (Inr s, sc)"
  using replace_all_prefix[of s "[]" cb sc] by simp

text \<open>
  \<open>interpolate\<close> can raise: the callback returns the object \<open>result\<close> for the
  placeholder \<open>{{result}}\<close>, \<open>replace\<close> converts it to a string outside the callback's
  \<open>try\<close>, and the conversion of an object whose own \<open>toString\<close> is not a function
  throws.
\<close>

lemma interpolate_raises:
  "interpolate h (Str ''{{result}}'') (Obj [], Obj [(''toString'', Num 1)], t) =
     (Inl (TypeError ''Cannot convert object to primitive value''),
      (Obj [], Obj [(''toString'', Num 1)], t))"
  by (simp add: interpolate_def placeholder_def starts_with_def evaluateExpression_def
      evalContext_def js_or_def capture_def is_space_def)

text \<open>
  C6, as amended. Take a template \<open>pre @ s\<close> whose first placeholder is the head of
  \<open>s\<close>, with expression \<open>expr\<close>, followed by \<open>rest\<close>; let \<open>src\<close> be JavaScript (not a
  dotted path, not a name of the evaluation context) whose evaluation throws. If
  \<open>expr\<close> is \<open>src\<close>, the placeholder is replaced by the text \<open>src\<close>: the placeholder
  without its braces and leading whitespace. If \<open>expr\<close> is \<open>json(src)\<close>, the
  placeholder is replaced by \<open>src\<close> in double quotes, as \<open>JSON.stringify\<close> writes it. In
  both cases the placeholder itself raises nothing and the output goes on with the
  interpolation of \<open>rest\<close>, in the state the failed evaluation left; when \<open>rest\<close> has
  no placeholder, that is \<open>rest\<close> itself.
\<close>

theorem failed_placeholder:
  assumes "match_at s = Some (m, expr, rest)"
    and "\<forall>i < length pre. match_at (drop i (pre @ s)) = None"
    and "new_Function h t src ctx result = (Inl e, ctx', result')"
    and "CHR ''.'' \<notin> set src"
    and "src \<notin> {''ctx'', ''result'', ''json'', ''stringify'', ''parse''}"
    and "\<not> inherited src"
  shows "(expr = src \<and> \<not> starts_with ''json('' src
          \<longrightarrow> interpolate h (Str (pre @ s)) (ctx, result, t)
                = (case replace_all (placeholder h) rest (ctx', result', Suc t) of
                     (Inl err, sc) \<Rightarrow> (Inl err, sc)
                   | (Inr out, sc) \<Rightarrow> (Inr (Str (pre @ src @ out)), sc)))
       \<and> (starts_with ''json('' expr \<and> butlast (drop 5 expr) = src
          \<longrightarrow> interpolate h (Str (pre @ s)) (ctx, result, t)
                = (case replace_all (placeholder h) rest (ctx', result', Suc t) of
                     (Inl err, sc) \<Rightarrow> (Inl err, sc)
                   | (Inr out, sc) \<Rightarrow> (Inr (Str (pre @ quoteJSONString src @ out)), sc)))
       \<and> ((\<forall>i < length rest. match_at (drop i rest) = None)
          \<longrightarrow> replace_all (placeholder h) rest (ctx', result', Suc t)
                = (Inr rest, (ctx', result', Suc t)))"
proof -
  have ev: "evaluateExpression h src (ctx, result, t) = (Inr (Str src), (ctx', result', Suc t))"
    using assms(3-6) by (simp add: evaluateExpression_def evalContext_def)
  have r: "replace_all cb (pre @ s) sc =
     (case cb m expr sc of
        (Inl err, sc1) \<Rightarrow> (Inl err, sc1)
      | (Inr v, sc1) \<Rightarrow>
          (case toString v of
             Inl err \<Rightarrow> (Inl err, sc1)
           | Inr x \<Rightarrow>
               (case replace_all cb rest sc1 of
                  (Inl err, sc2) \<Rightarrow> (Inl err, sc2)
                | (Inr out, sc2) \<Rightarrow> (Inr (pre @ x @ out), sc2))))" for cb sc
    unfolding replace_all_prefix[OF assms(2)] replace_all_match[OF assms(1)]
    by (auto split: prod.splits sum.splits)
  have a: "placeholder h m expr (ctx, result, t) = (Inr (Str src), (ctx', result', Suc t))"
    if "expr = src" "\<not> starts_with ''json('' src"
    using that ev by (simp add: placeholder_def)
  have b: "placeholder h m expr (ctx, result, t)
             = (Inr (Str (quoteJSONString src)), (ctx', result', Suc t))"
    if "starts_with ''json('' expr" "butlast (drop 5 expr) = src"
    using that ev by (simp add: placeholder_def stringify_def)
  have c: "replace_all (placeholder h) rest (ctx', result', Suc t) = (Inr rest, (ctx', result', Suc t))"
    if "\<forall>i < length rest. match_at (drop i rest) = None"
    using that by (rule replace_all_plain)
  have 1: "interpolate h (Str (pre @ s)) (ctx, result, t)
                = (case replace_all (placeholder h) rest (ctx', result', Suc t) of
                     (Inl err, sc) \<Rightarrow> (Inl err, sc)
                   | (Inr out, sc) \<Rightarrow> (Inr (Str (pre @ src @ out)), sc))"
    if "expr = src" "\<not> starts_with ''json('' src"
    using a[OF that] by (simp add: interpolate_def r split: prod.splits sum.splits)
  have 2: "interpolate h (Str (pre @ s)) (ctx, result, t)
                = (case replace_all (placeholder h) rest (ctx', result', Suc t) of
                     (Inl err, sc) \<Rightarrow> (Inl err, sc)
                   | (Inr out, sc) \<Rightarrow> (Inr (Str (pre @ quoteJSONString src @ out)), sc))"
    if "starts_with ''json('' expr" "butlast (drop 5 expr) = src"
    using b[OF that] by (simp add: interpolate_def r split: prod.splits sum.splits)
  show ?thesis using 1 2 c by blast
qed

theorem failed_placeholder_witness:
  "interpolate sample_host (Str ''Hello {{ foo bar}}!'') (Obj [], Undefined, 0)
     = (Inr (Str ''Hello foo bar!''), (Obj [], Undefined, 1))
   \<and> interpolate sample_host (Str ''{{json(foo bar)}}'') (Obj [], Undefined, 0)
     = (Inr (Str ([CHR 0x22] @ ''foo bar'' @ [CHR 0x22])), (Obj [], Undefined, 1))"
proof -
  have f: "new_Function sample_host 0 ''foo bar'' (Obj []) Undefined
             = (Inl (SyntaxError ''Unexpected identifier''), Obj [], Undefined)"
    by (simp add: sample_host_def)
  have i: "\<not> inherited ''foo bar''"
    by (simp add: inherited_def object_prototype_keys_def)
  have m: "match_at ''{{ foo bar}}!'' = Some (''{{ foo bar}}'', ''foo bar'', ''!'')"
    by (simp add: capture_def is_space_def)
  have p: "\<forall>i < length ''Hello ''. match_at (drop i (''Hello '' @ ''{{ foo bar}}!'')) = None"
    by (simp add: All_less_Suc eval_nat_numeral)
  have m': "match_at ''{{json(foo bar)}}'' = Some (''{{json(foo bar)}}'', ''json(foo bar)'', [])"
    by (simp add: capture_def is_space_def)
  have p': "\<forall>i < length ([] :: string). match_at (drop i ([] @ ''{{json(foo bar)}}'')) = None"
    by simp
  have q: "quoteJSONString ''foo bar'' = [CHR 0x22] @ ''foo bar'' @ [CHR 0x22]"
    by (simp add: quoteJSONString_def quote_char_def)
  have "interpolate sample_host (Str ''Hello {{ foo bar}}!'') (Obj [], Undefined, 0)
     = (Inr (Str ''Hello foo bar!''), (Obj [], Undefined, 1))"
    using failed_placeholder[OF m p f _ _ i]
    by (simp add: starts_with_def)
  moreover have "interpolate sample_host (Str ''{{json(foo bar)}}'') (Obj [], Undefined, 0)
     = (Inr (Str ([CHR 0x22] @ ''foo bar'' @ [CHR 0x22])), (Obj [], Undefined, 1))"
    using failed_placeholder[OF m' p' f _ _ i]
    by (simp add: starts_with_def q)
  ultimately show ?thesis by simp
qed

theorem placeholder_not_kept:
  "new_Function sample_host 0 ''foo bar'' (Obj []) Undefined
     = (Inl (SyntaxError ''Unexpected identifier''), Obj [], Undefined)
   \<and> interpolate sample_host (Str ''{{foo bar}}'') (Obj [], Undefined, 0)
     = (Inr (Str ''foo bar''), (Obj [], Undefined, 1))
   \<and> fst (interpolate sample_host (Str ''{{foo bar}}'') (Obj [], Undefined, 0))
     \<noteq> Inr (Str ''{{foo bar}}'')"
  by (simp add: sample_host_def interpolate_def placeholder_def starts_with_def
      evaluateExpression_def evalContext_def capture_def is_space_def inherited_def
      object_prototype_keys_def)

subsection \<open>Counting nodes and links\<close>

text \<open>
  The successor links installed on the compiled nodes: the entries of their successor
  maps, counted. \<open>edge_key\<close> is what an edge contributes: its source and the property
  key of its label (\<open>"default"\<close> when absent or otherwise falsy).
\<close>

definition links :: "(jsval \<times> addr) list \<Rightarrow> world \<Rightarrow> nat" where
  "links nds w = sum_list (map (\<lambda>(k, a). length (successors (heap w ! a))) nds)"

definition edge_key :: "jsval \<Rightarrow> jsval \<times> (error + string)" where
  "edge_key edge = (opt edge ''from'', label_key (opt edge ''label''))"

definition link_set :: "(jsval \<times> addr) list \<Rightarrow> world \<Rightarrow> (addr \<times> string) set" where
  "link_set nds w = (SIGMA a : snd ` set nds. fst ` set (successors (heap w ! a)))"

definition wired :: "(jsval \<times> addr) list \<Rightarrow> world \<Rightarrow> bool" where
  "wired nds w \<longleftrightarrow>
     distinct (map snd nds)
     \<and> (\<forall>a \<in> snd ` set nds. a < length (heap w) \<and> distinct (map fst (successors (heap w ! a))))"

lemma wiredD:
  "wired nds w \<Longrightarrow> a \<in> snd ` set nds
     \<Longrightarrow> a < length (heap w) \<and> distinct (map fst (successors (heap w ! a)))"
  unfolding wired_def by blast

lemma links_card:
  assumes "wired nds w"
  shows "links nds w = card (link_set nds w)"
proof -
  have d: "distinct (map snd nds)" using assms by (simp add: wired_def)
  have "links nds w = sum_list (map (\<lambda>a. length (successors (heap w ! a))) (map snd nds))"
    unfolding links_def by (induction nds) auto
  also have "\<dots> = (\<Sum>a \<in> set (map snd nds). length (successors (heap w ! a)))"
    using d by (rule sum_list_distinct_conv_sum_set)
  also have "\<dots> = (\<Sum>a \<in> snd ` set nds. card (fst ` set (successors (heap w ! a))))"
  proof (rule sum.cong)
    show "set (map snd nds) = snd ` set nds" by simp
  next
    fix a assume "a \<in> snd ` set nds"
    then have "distinct (map fst (successors (heap w ! a)))"
      using wiredD[OF assms] by blast
    then have "card (set (map fst (successors (heap w ! a)))) = length (map fst (successors (heap w ! a)))"
      by (rule distinct_card)
    then show "length (successors (heap w ! a)) = card (fst ` set (successors (heap w ! a)))"
      by simp
  qed
  also have "\<dots> = card (link_set nds w)"
    unfolding link_set_def by (rule card_SigmaI[symmetric]) simp_all
  finally show ?thesis .
qed

lemma assign_keys: "fst ` set (assign kvs k v) = insert k (fst ` set kvs)"
proof (induction kvs)
  case Nil
  show ?case by simp
next
  case (Cons kv kvs)
  obtain k' v' where kv: "kv = (k', v')" by (cases kv)
  show ?case using Cons kv by (cases "k' = k") auto
qed

lemma assign_distinct: "distinct (map fst kvs) \<Longrightarrow> distinct (map fst (assign kvs k v))"
proof (induction kvs)
  case Nil
  show ?case by simp
next
  case (Cons kv kvs)
  obtain k' v' where kv: "kv = (k', v')" by (cases kv)
  show ?case
  proof (cases "k' = k")
    case True
    then show ?thesis using Cons.prems kv by simp
  next
    case False
    have "k' \<notin> fst ` set (assign kvs k v)"
      using Cons.prems kv False by (simp add: assign_keys)
    then show ?thesis using Cons kv False by simp
  qed
qed

lemma heap_next:
  assumes "BaseNode_next a b lbl w = Inr w1"
  shows "\<exists>k. action_key lbl = Inr k \<and> k \<noteq> ''__proto__''
           \<and> heap w1 = (heap w)[a := (heap w ! a)\<lparr>successors := assign (successors (heap w ! a)) k b\<rparr>]"
  using assms by (auto simp: BaseNode_next_def update_node_def split: sum.splits if_splits)

lemma next_wired:
  assumes "wired nds w" and "BaseNode_next a b lbl w = Inr w1"
  shows "wired nds w1"
  unfolding wired_def
proof (intro conjI ballI)
  show "distinct (map snd nds)" using assms(1) by (simp add: wired_def)
next
  fix x assume x: "x \<in> snd ` set nds"
  then have lt: "x < length (heap w)" and dx: "distinct (map fst (successors (heap w ! x)))"
    using wiredD[OF assms(1)] by blast+
  obtain k where hp: "heap w1 = (heap w)[a := (heap w ! a)\<lparr>successors := assign (successors (heap w ! a)) k b\<rparr>]"
    using heap_next[OF assms(2)] by blast
  show "x < length (heap w1)" using lt by (simp add: hp)
  show "distinct (map fst (successors (heap w1 ! x)))"
  proof (cases "x = a")
    case True
    then show ?thesis using lt dx by (simp add: hp assign_distinct)
  next
    case False
    then show ?thesis using dx by (simp add: hp)
  qed
qed

lemma Sigma_insert_at:
  "a \<in> A \<Longrightarrow> (SIGMA x : A. if x = a then insert k (K x) else K x) = insert (a, k) (SIGMA x : A. K x)"
  by (auto split: if_splits)

lemma next_link_set:
  assumes "wired nds w" and "a \<in> snd ` set nds"
    and "BaseNode_next a b lbl w = Inr w1" and "action_key lbl = Inr k"
  shows "link_set nds w1 = insert (a, k) (link_set nds w)"
proof -
  have lt: "a < length (heap w)" using wiredD[OF assms(1,2)] by blast
  have hp: "heap w1 = (heap w)[a := (heap w ! a)\<lparr>successors := assign (successors (heap w ! a)) k b\<rparr>]"
    using heap_next[OF assms(3)] assms(4) by simp
  have keys: "fst ` set (successors (heap w1 ! x)) =
                (if x = a then insert k (fst ` set (successors (heap w ! x)))
                 else fst ` set (successors (heap w ! x)))" for x
    using lt by (simp add: hp assign_keys)
  show ?thesis
    unfolding link_set_def keys using assms(2) by (rule Sigma_insert_at)
qed

lemma map_get_mem: "map_get m k = Some a \<Longrightarrow> a \<in> snd ` set m"
  by (induction m) (auto split: if_splits)

lemma map_get_inj:
  "distinct (map snd m) \<Longrightarrow> map_get m k1 = Some a \<Longrightarrow> map_get m k2 = Some a \<Longrightarrow> k1 = k2"
proof (induction m)
  case Nil
  then show ?case by simp
next
  case (Cons kv m)
  obtain k' v where kv: "kv = (k', v)" by (cases kv)
  have fresh: "v \<notin> snd ` set m" using Cons.prems(1) kv by simp
  show ?case
  proof (cases "same_value k' k1")
    case s1: True
    then have av: "a = v" using Cons.prems(2) kv by simp
    show ?thesis
    proof (cases "same_value k' k2")
      case True
      then show ?thesis using s1 by (simp add: same_value_def)
    next
      case False
      then have "map_get m k2 = Some a" using Cons.prems(3) kv by simp
      then have "a \<in> snd ` set m" by (rule map_get_mem)
      then show ?thesis using fresh av by simp
    qed
  next
    case n1: False
    then have g1: "map_get m k1 = Some a" using Cons.prems(2) kv by simp
    show ?thesis
    proof (cases "same_value k' k2")
      case True
      then have "a = v" using Cons.prems(3) kv by simp
      then show ?thesis using map_get_mem[OF g1] fresh by simp
    next
      case False
      then have "map_get m k2 = Some a" using Cons.prems(3) kv by simp
      then show ?thesis using Cons.IH g1 Cons.prems(1) by simp
    qed
  qed
qed

text \<open>The address an edge's source resolves to, with the key of its label.\<close>

definition resolved :: "(jsval \<times> addr) list \<Rightarrow> jsval \<times> (error + string) \<Rightarrow> addr \<times> string" where
  "resolved nds ek = (the (map_get nds (fst ek)), projr (snd ek))"

lemma action_key_label: "action_key (js_or l (Str ''default'')) = label_key l"
  by (auto simp: action_key_def label_key_def js_or_def)

lemma connect_edges_links:
  assumes "connect_edges nds edges w = Inr w'" and "wired nds w"
  shows "wired nds w' \<and> link_set nds w' = link_set nds w \<union> resolved nds ` edge_key ` set edges
       \<and> (\<forall>e \<in> set edges. map_get nds (opt e ''from'') \<noteq> None
                               \<and> (\<exists>k. label_key (opt e ''label'') = Inr k))
       \<and> length (heap w') = length (heap w)"
  using assms
proof (induction edges arbitrary: w)
  case Nil
  then show ?case by simp
next
  case (Cons edge edges)
  from Cons.prems(1) obtain fromNode toNode w1 where
      f: "map_get nds (opt edge ''from'') = Some fromNode"
      and nx: "BaseNode_next fromNode toNode (js_or (opt edge ''label'') (Str ''default'')) w = Inr w1"
      and rest: "connect_edges nds edges w1 = Inr w'"
    by (auto simp: dot_def split: if_splits option.splits sum.splits)
  obtain k where k: "label_key (opt edge ''label'') = Inr k"
    and hp: "heap w1 = (heap w)[fromNode := (heap w ! fromNode)\<lparr>successors :=
                           assign (successors (heap w ! fromNode)) k toNode\<rparr>]"
    using heap_next[OF nx] by (auto simp: action_key_label)
  have mem: "fromNode \<in> snd ` set nds" using f by (rule map_get_mem)
  have w1: "wired nds w1" using Cons.prems(2) nx by (rule next_wired)
  have ls: "link_set nds w1 = insert (resolved nds (edge_key edge)) (link_set nds w)"
    using next_link_set[OF Cons.prems(2) mem nx] f k
    by (simp add: resolved_def edge_key_def action_key_label)
  have IH: "wired nds w' \<and> link_set nds w' = link_set nds w1 \<union> resolved nds ` edge_key ` set edges
       \<and> (\<forall>e \<in> set edges. map_get nds (opt e ''from'') \<noteq> None
                               \<and> (\<exists>k. label_key (opt e ''label'') = Inr k))
       \<and> length (heap w') = length (heap w1)"
    using Cons.IH[OF rest w1] .
  show ?case using IH ls f k by (auto simp: hp)
qed

lemma map_set_fresh: "\<not> array_includes (map fst m) k \<Longrightarrow> map_set m k v = m @ [(k, v)]"
  by (induction m) (auto simp: array_includes_def)

lemma factory_successors:
  assumes "registry ev h kind = Some factory" and "factory nodeConfig = Inr n"
  shows "successors n = []"
proof -
  have "(kind, factory) \<in> set [(''llm'', createLLMNode ev h), (''http'', createHTTPNode ev h),
             (''router'', createRouterNode ev h), (''data'', createDataNode ev h),
             (''batch'', createBatchNode ev h), (''async'', createAsyncNode ev h),
             (''parallel'', createParallelNode ev h)]"
    using assms(1) unfolding registry_def factories_def by (rule map_of_SomeD)
  then consider "factory = createLLMNode ev h" | "factory = createHTTPNode ev h"
    | "factory = createRouterNode ev h" | "factory = createDataNode ev h"
    | "factory = createBatchNode ev h" | "factory = createAsyncNode ev h"
    | "factory = createParallelNode ev h"
    by auto
  then show ?thesis
  proof cases
    case 1
    then show ?thesis using assms(2)
      by (auto simp: createLLMNode_def new_retrying_def new_Node_def split: sum.splits)
  next
    case 2
    then show ?thesis using assms(2)
      by (auto simp: createHTTPNode_def new_retrying_def new_Node_def split: sum.splits)
  next
    case 3
    then show ?thesis using assms(2)
      by (auto simp: createRouterNode_def new_Node_def)
  next
    case 4
    then show ?thesis using assms(2)
      by (auto simp: createDataNode_def new_Node_def)
  next
    case 5
    then show ?thesis using assms(2)
      by (auto simp: createBatchNode_def new_retrying_def new_Node_def split: sum.splits)
  next
    case 6
    then show ?thesis using assms(2)
      by (auto simp: createAsyncNode_def new_retrying_def new_Node_def split: sum.splits)
  next
    case 7
    then show ?thesis using assms(2)
      by (auto simp: createParallelNode_def new_retrying_def new_Node_def split: sum.splits)
  qed
qed

text \<open>
  The invariant of the first loop, from the world \<open>w0\<close> it started in: the map has the
  identifiers of the set as its keys, in order; its values are the addresses of the
  objects allocated since, in order; and these objects have no successor yet.
\<close>

definition created :: "world \<Rightarrow> jsval list \<Rightarrow> (jsval \<times> addr) list \<Rightarrow> world \<Rightarrow> bool" where
  "created w0 nodeIds nds w \<longleftrightarrow>
     map fst nds = nodeIds
     \<and> map snd nds = [length (heap w0) ..< length (heap w)]
     \<and> length (heap w0) \<le> length (heap w)
     \<and> (\<forall>a. length (heap w0) \<le> a \<and> a < length (heap w) \<longrightarrow> successors (heap w ! a) = [])"

lemma create_nodes_created:
  assumes "create_nodes ev h cfgs (nodeIds, nds, w) = Inr (nodeIds', nds', w')"
    and "created w0 nodeIds nds w"
  shows "created w0 nodeIds' nds' w' \<and> length nds' = length nds + length cfgs"
  using assms
proof (induction cfgs arbitrary: nodeIds nds w)
  case Nil
  then show ?case by simp
next
  case (Cons nodeConfig cfgs)
  from Cons.prems(1) obtain ident kind factory n where
      fresh: "\<not> array_includes nodeIds ident"
      and reg: "registry ev h kind = Some factory"
      and fac: "factory nodeConfig = Inr n"
      and rest: "create_nodes ev h cfgs
                   (nodeIds @ [ident], map_set nds ident (fst (alloc n w)), snd (alloc n w))
                 = Inr (nodeIds', nds', w')"
    by (auto split: sum.splits if_splits option.splits)
  have keys: "map fst nds = nodeIds" using Cons.prems(2) by (simp add: created_def)
  have set: "map_set nds ident (fst (alloc n w)) = nds @ [(ident, length (heap w))]"
    using map_set_fresh[of nds ident] fresh keys by (simp add: alloc_def)
  have succ: "successors n = []" using reg fac by (rule factory_successors)
  have "created w0 (nodeIds @ [ident]) (nds @ [(ident, length (heap w))]) (snd (alloc n w))"
    using Cons.prems(2) succ
    by (auto simp: created_def alloc_def nth_append)
  then have "created w0 nodeIds' nds' w'
             \<and> length nds' = length (nds @ [(ident, length (heap w))]) + length cfgs"
    using Cons.IH rest set by simp
  then show ?case by simp
qed

lemma created_wired: "created w0 nodeIds nds w \<Longrightarrow> wired nds w \<and> link_set nds w = {}"
proof -
  assume c: "created w0 nodeIds nds w"
  then have s: "map snd nds = [length (heap w0) ..< length (heap w)]"
    by (simp add: created_def)
  then have d: "distinct (map snd nds)" by simp
  have m: "length (heap w0) \<le> a \<and> a < length (heap w)" if "a \<in> snd ` set nds" for a
  proof -
    from that have "a \<in> set (map snd nds)" by simp
    then show ?thesis unfolding s by simp
  qed
  have e: "successors (heap w ! a) = []" if "a \<in> snd ` set nds" for a
    using m[OF that] c by (simp add: created_def)
  have "link_set nds w = (SIGMA a : snd ` set nds. {})"
    unfolding link_set_def by (rule Sigma_cong) (simp_all add: e)
  then have "link_set nds w = {}" by simp
  moreover have "wired nds w"
    unfolding wired_def using d m e by simp
  ultimately show ?thesis by simp
qed

text \<open>
  C5, as amended. Take a graph description with \<open>N\<close> node specs and \<open>M\<close> edge specs
  that passes validation and compiles, in which no kind names a member of
  \<open>Object.prototype\<close> and no label is \<open>"__proto__"\<close>. Compilation allocates exactly \<open>N\<close>
  node objects, one per spec and in order, and one flow object; and it installs
  exactly one successor link per distinct pair of source and label among the edges:
  at most \<open>M\<close>, and exactly \<open>M\<close> when no two edges share source and label (an edge that
  repeats a pair overwrites the link of the earlier one).
\<close>

theorem compile_counts:
  assumes "validate sch cfg = Inr ()"
    and "compile ev h cfg w = Inr (c, w')"
    and "opt cfg ''nodes'' = Arr nodeConfigs" and "opt cfg ''edges'' = Arr edges"
    and "\<forall>nc \<in> set nodeConfigs. \<forall>k. toString (opt nc ''kind'') = Inr k \<longrightarrow> \<not> inherited k"
    and "\<forall>e \<in> set edges. label_key (opt e ''label'') \<noteq> Inr ''__proto__''"
  shows "length (nodes c) = length nodeConfigs
       \<and> map snd (nodes c) = [length (heap w) ..< length (heap w) + length nodeConfigs]
       \<and> length (heap w') = length (heap w) + length nodeConfigs + 1
       \<and> links (nodes c) w' = card (edge_key ` set edges)
       \<and> links (nodes c) w' \<le> length edges
       \<and> (distinct (map edge_key edges) \<longrightarrow> links (nodes c) w' = length edges)"
proof -
  from assms(2-4) obtain nodeIds nds w1 w2 startNode' where
      cn: "create_nodes ev h nodeConfigs ([], [], w) = Inr (nodeIds, nds, w1)"
      and ce: "connect_edges nds edges w1 = Inr w2"
      and c: "nodes c = nds"
      and w': "w' = setParams (length (heap w2)) (js_or (opt cfg ''globals'') (Obj []))
                      (update_node (length (heap w2)) (\<lambda>n. n\<lparr>startNode := Some startNode'\<rparr>)
                         (snd (alloc (new_Flow (flow_class nds w2) None) w2)))"
    by (auto simp: compile_def split: if_splits sum.splits option.splits)
  have "created w [] [] w" by (auto simp: created_def)
  then have cr: "created w nodeIds nds w1" and len: "length nds = length nodeConfigs"
    using create_nodes_created[OF cn] by simp_all
  have addrs: "map snd nds = [length (heap w) ..< length (heap w1)]"
    using cr by (simp add: created_def)
  then have "length (map snd nds) = length (heap w1) - length (heap w)" by simp
  then have h1: "length (heap w1) = length (heap w) + length nodeConfigs"
    using len cr by (simp add: created_def)
  have wired1: "wired nds w1" and empty1: "link_set nds w1 = {}"
    using created_wired[OF cr] by simp_all
  have wired2: "wired nds w2"
    and ls2: "link_set nds w2 = resolved nds ` edge_key ` set edges"
    and res: "\<forall>e \<in> set edges. map_get nds (opt e ''from'') \<noteq> None
                               \<and> (\<exists>k. label_key (opt e ''label'') = Inr k)"
    and h2: "length (heap w2) = length (heap w1)"
    using connect_edges_links[OF ce wired1] empty1 by simp_all
  have hw': "heap w' = (heap w2 @ [new_Flow (flow_class nds w2) None])
                          [length (heap w2) := ((heap w2 @ [new_Flow (flow_class nds w2) None])
                              ! length (heap w2))\<lparr>startNode := Some startNode',
                                 params := js_or (opt cfg ''globals'') (Obj [])\<rparr>]"
    unfolding w' by (simp add: setParams_def update_node_def alloc_def)
  have same: "heap w' ! a = heap w2 ! a" if "a < length (heap w2)" for a
    using that by (simp add: hw' nth_append)
  have "links nds w' = links nds w2"
    unfolding links_def
  proof (rule arg_cong[where f = sum_list], rule map_cong[OF refl])
    fix x assume x: "x \<in> set nds"
    then have "snd x \<in> snd ` set nds" by simp
    then have "snd x < length (heap w2)" using wiredD[OF wired2] by blast
    then show "(case x of (k, a) \<Rightarrow> length (successors (heap w' ! a)))
             = (case x of (k, a) \<Rightarrow> length (successors (heap w2 ! a)))"
      by (cases x) (simp add: same)
  qed
  also have "\<dots> = card (resolved nds ` edge_key ` set edges)"
    using links_card[OF wired2] ls2 by simp
  also have "\<dots> = card (edge_key ` set edges)"
  proof (rule card_image)
    show "inj_on (resolved nds) (edge_key ` set edges)"
    proof (rule inj_onI)
      fix x y
      assume x: "x \<in> edge_key ` set edges" and y: "y \<in> edge_key ` set edges"
        and eq: "resolved nds x = resolved nds y"
      from x res obtain a k1 where a: "map_get nds (fst x) = Some a" and k1: "snd x = Inr k1"
        by (auto simp: edge_key_def)
      from y res obtain b k2 where b: "map_get nds (fst y) = Some b" and k2: "snd y = Inr k2"
        by (auto simp: edge_key_def)
      from eq a b k1 k2 have "a = b" and k: "snd x = snd y" by (simp_all add: resolved_def)
      then have "fst x = fst y"
        using map_get_inj[of nds "fst x" a "fst y"] a b wired2 by (simp add: wired_def)
      with k show "x = y" by (simp add: prod_eq_iff)
    qed
  qed
  finally have count: "links nds w' = card (edge_key ` set edges)" .
  have le: "card (edge_key ` set edges) \<le> length edges"
    by (metis card_length length_map list.set_map)
  have eq: "card (edge_key ` set edges) = length edges" if "distinct (map edge_key edges)"
    using distinct_card[OF that] by simp
  have "length (heap w') = Suc (length (heap w2))" by (simp add: hw')
  then show ?thesis
    using c len addrs h1 h2 count le eq by simp
qed

text \<open>
  A graph with three data nodes and two edges out of \<open>a\<close>, both with the default
  label. The schema lists the four required fields and the seven registered kinds.
\<close>

definition fan_graph :: jsval where
  "fan_graph = Obj [
     (''version'', Str ''pf-js/1.0''),
     (''entry'', Str ''a''),
     (''globals'', Obj []),
     (''nodes'', Arr [Obj [(''id'', Str ''a''), (''kind'', Str ''data'')],
                     Obj [(''id'', Str ''b''), (''kind'', Str ''data'')],
                     Obj [(''id'', Str ''c''), (''kind'', Str ''data'')]]),
     (''edges'', Arr [Obj [(''from'', Str ''a''), (''to'', Str ''b'')],
                     Obj [(''from'', Str ''a''), (''to'', Str ''c'')]])]"

definition sample_schema :: schema where
  "sample_schema =
     \<lparr>required = [''version'', ''entry'', ''nodes'', ''edges''],
      kinds = [Str ''llm'', Str ''http'', Str ''router'', Str ''data'', Str ''batch'',
               Str ''async'', Str ''parallel'']\<rparr>"

lemmas validate_eval = validate_def validateConfig_def validateEdgeRouting_def
  validateAgainstSchema_def check_version_def sample_schema_def dot_def array_includes_def
  same_value_def node_actions_def version_ok_def is_digit_def js_or_def inherited_def
  object_prototype_keys_def

lemma fan_graph_valid: "validate sample_schema fan_graph = Inr ()"
  by (simp add: validate_eval fan_graph_def)

lemma cycle_graph_valid: "validate sample_schema cycle_graph = Inr ()"
  by (simp add: validate_eval cycle_graph_def review_config_def revise_config_def)

lemma fan_graph_compiles:
  "\<exists>c w. compile answering_env sample_host fan_graph empty_world = Inr (c, w)
      \<and> nodes c = [(Str ''a'', 0), (Str ''b'', 1), (Str ''c'', 2)]
      \<and> successors (heap w ! 0) = [(''default'', 2)]
      \<and> successors (heap w ! 1) = [] \<and> successors (heap w ! 2) = []"
  by (simp add: compile_def fan_graph_def empty_world_def registry_def factories_def
      createDataNode_def array_includes_def dot_def same_value_def alloc_def flow_class_def
      js_or_def setParams_def update_node_def new_Flow_def new_Node_def BaseNode_next_def
      action_key_def)

theorem shared_label_overwrites:
  "validate sample_schema fan_graph = Inr ()
   \<and> opt fan_graph ''edges'' = Arr [Obj [(''from'', Str ''a''), (''to'', Str ''b'')],
                                     Obj [(''from'', Str ''a''), (''to'', Str ''c'')]]
   \<and> (\<exists>c w. compile answering_env sample_host fan_graph empty_world = Inr (c, w)
          \<and> length (nodes c) = 3 \<and> links (nodes c) w = 1)"
proof -
  obtain c w where "compile answering_env sample_host fan_graph empty_world = Inr (c, w)"
    and n: "nodes c = [(Str ''a'', 0), (Str ''b'', 1), (Str ''c'', 2)]"
    and s: "successors (heap w ! 0) = [(''default'', 2)]"
      "successors (heap w ! 1) = []" "successors (heap w ! 2) = []"
    using fan_graph_compiles by blast
  moreover have "links (nodes c) w = 1"
    using s by (simp add: links_def n)
  ultimately show ?thesis
    using fan_graph_valid by (auto simp: fan_graph_def)
qed

theorem compile_counts_witness:
  "\<exists>c w. compile answering_env sample_host cycle_graph empty_world = Inr (c, w)
      \<and> length (nodes c) = 2 \<and> links (nodes c) w = 2"
proof -
  let ?c = "\<lparr>flow = 2, nodes = [(Str ''review'', 0), (Str ''revise'', 1)], config = cycle_graph\<rparr>"
  have n: "opt cycle_graph ''nodes'' = Arr [review_config, revise_config]"
    and e: "opt cycle_graph ''edges'' = Arr [Obj [(''from'', Str ''review''), (''to'', Str ''revise'')],
                                             Obj [(''from'', Str ''revise''), (''to'', Str ''review'')]]"
    by (simp_all add: cycle_graph_def)
  have i: "\<forall>nc \<in> set [review_config, revise_config].
             \<forall>k. toString (opt nc ''kind'') = Inr k \<longrightarrow> \<not> inherited k"
    by (auto simp: review_config_def revise_config_def inherited_def object_prototype_keys_def)
  have p: "\<forall>e \<in> set [Obj [(''from'', Str ''review''), (''to'', Str ''revise'')],
                       Obj [(''from'', Str ''revise''), (''to'', Str ''review'')]].
             label_key (opt e ''label'') \<noteq> Inr ''__proto__''"
    by (simp add: label_key_def js_or_def)
  have k: "distinct (map edge_key [Obj [(''from'', Str ''review''), (''to'', Str ''revise'')],
                                   Obj [(''from'', Str ''revise''), (''to'', Str ''review'')]])"
    by (simp add: edge_key_def)
  have "length (nodes ?c) = length [review_config, revise_config]
        \<and> links (nodes ?c) (cycle_world sample_host) = 2"
    using compile_counts[OF cycle_graph_valid cycle_compiles[of sample_host] n e i p] k
    by simp
  then show ?thesis using cycle_compiles[of sample_host] by simp
qed

end
